theory Spec2Isabelle
  imports Complex_Main "HOL-Library.Word"
begin

unbundle bit_operations_syntax

section \<open>Common notions\<close>

text \<open>
  The exceptions the modelled Python code can raise. \<open>MisconfiguredError\<close> is the
  error kind the specification names; no line of the source raises it.
  \<open>CallbackError\<close> stands for whatever exception a user callback raises.

  A call that mutates its object returns \<open>Inr s'\<close> when it returns normally and
  \<open>Inl (e, s')\<close> when exception \<open>e\<close> escapes; \<open>s'\<close> is then the object as the
  exception leaves it, since Python keeps every mutation made before the raise.
\<close>

datatype error =
    KeyError | TypeError | ValueError | ZeroDivisionError | OverflowError
  | CallbackError | MisconfiguredError

text \<open>
  A callback is an opaque Python callable. It is modelled by its name; every
  function that invokes callbacks takes a parameter \<open>fails\<close> telling which
  callbacks raise, and appends each invocation to a log of the object.
  A callback is assumed not to call back into the object that invokes it.
\<close>

type_synonym callback = string

definition state_of :: "(error \<times> 's) + 's \<Rightarrow> 's" where
  "state_of r = (case r of Inl (e, s) \<Rightarrow> s | Inr s \<Rightarrow> s)"

section \<open>timing.py\<close>

text \<open>
  The file is Python 2 (its sibling switch_controller.py uses \<open>iteritems\<close>):
  \<open>/\<close> on two integers is floor division, which is \<open>div\<close> on \<open>int\<close>.
  Floating-point numbers are idealised as reals: rounding is not modelled.
\<close>

record timer =
  timer_callback :: callback
  timer_args :: "string list"
  wakeup :: "int option"
  frequency :: "int option"

text \<open>
  The class attributes \<open>Timing.HZ\<close>, \<open>Timing.secs_per_tick\<close> and \<open>Timing.tick\<close>,
  the instance attribute \<open>timers\<close> (a set: its iteration order is some fixed
  order, here the order of the list), and the log of callback invocations.
\<close>

record timing =
  HZ :: "int option"
  secs_per_tick :: "real option"
  tick :: int
  timers :: "timer list"
  timer_calls :: "callback list"

definition Timing_init :: timing where
  "Timing_init = \<lparr>HZ = None, secs_per_tick = None, tick = 0, timers = [],
     timer_calls = []\<rparr>"

text \<open>
  \<open>float(n)\<close> of an integer raises OverflowError when the integer is too
  large for a float: from the magnitude \<open>2^1024 - 2^970\<close> on, which is where
  rounding to 53 bits reaches \<open>2^1024\<close>.
\<close>

definition float_overflows :: "int \<Rightarrow> bool" where
  "float_overflows n = (2 ^ 1024 - 2 ^ 970 \<le> \<bar>n\<bar>)"

text \<open>
  \<^verbatim>\<open>Timing.HZ = HZ; Timing.secs_per_tick = 1 / float(HZ)\<close>:
  \<open>float(HZ)\<close> raises for a rate beyond the float range and the division
  raises at \<open>HZ = 0\<close>, both after \<open>Timing.HZ\<close> has been assigned.
\<close>

definition configure :: "timing \<Rightarrow> int \<Rightarrow> (error \<times> timing) + timing" where
  "configure tm hz =
     (let tm1 = tm\<lparr>HZ := Some hz\<rparr>
      in if float_overflows hz then Inl (OverflowError, tm1)
         else if real_of_int hz = 0 then Inl (ZeroDivisionError, tm1)
         else Inr (tm1\<lparr>secs_per_tick := Some (1 / real_of_int hz)\<rparr>))"

text \<open>
  \<^verbatim>\<open>Timer.__init__(callback, args=tuple(), frequency=None)\<close>:
  \<^verbatim>\<open>self.frequency = frequency / 1000 * Timing.HZ\<close>. \<open>None / 1000\<close> raises
  TypeError, and so does an integer times \<open>Timing.HZ\<close> while that is still None.
\<close>

definition Timer_init ::
  "timing \<Rightarrow> callback \<Rightarrow> string list \<Rightarrow> int option \<Rightarrow> error + timer" where
  "Timer_init tm cb args freq =
     (case freq of
        None \<Rightarrow> Inl TypeError
      | Some f \<Rightarrow>
          (case HZ tm of
             None \<Rightarrow> Inl TypeError
           | Some hz \<Rightarrow>
               Inr \<lparr>timer_callback = cb, timer_args = args, wakeup = None,
                    frequency = Some (f div 1000 * hz)\<rparr>))"

text \<open>\<^verbatim>\<open>timer.wakeup = Timing.tick + timer.frequency; self.timers.add(timer)\<close>\<close>

definition add :: "timing \<Rightarrow> timer \<Rightarrow> (error \<times> timing) + timing" where
  "add tm t =
     (case frequency t of
        None \<Rightarrow> Inl (TypeError, tm)
      | Some f \<Rightarrow> Inr (tm\<lparr>timers := timers tm @ [t\<lparr>wakeup := Some (tick tm + f)\<rparr>]\<rparr>))"

text \<open>
  The test \<^verbatim>\<open>timer.wakeup and timer.wakeup <= Timing.tick\<close>:
  \<open>None\<close> and \<open>0\<close> are both false in Python.
\<close>

definition due :: "timer \<Rightarrow> int \<Rightarrow> bool" where
  "due t now = (case wakeup t of None \<Rightarrow> False | Some w \<Rightarrow> w \<noteq> 0 \<and> w \<le> now)"

text \<open>
  What follows \<^verbatim>\<open>timer.call()\<close> in the loop body:
  \<^verbatim>\<open>if timer.frequency: timer.wakeup += timer.frequency else: timer.wakeup = None\<close>.
  It is only reached for a due timer, whose wakeup is a number.
\<close>

definition reschedule :: "timer \<Rightarrow> timer" where
  "reschedule t =
     (case frequency t of
        None \<Rightarrow> t\<lparr>wakeup := None\<rparr>
      | Some f \<Rightarrow>
          if f \<noteq> 0 then t\<lparr>wakeup := map_option (\<lambda>w. w + f) (wakeup t)\<rparr>
          else t\<lparr>wakeup := None\<rparr>)"

text \<open>
  The loop \<^verbatim>\<open>for timer in self.timers\<close> of \<open>timer_tick\<close>. The first argument
  holds the timers already visited (as the loop left them), the second the
  timers still to visit, the third the log. When a callback raises, the loop
  stops there: the timer that raised and those after it are as they were.
\<close>

fun timer_loop ::
  "(callback \<Rightarrow> bool) \<Rightarrow> int \<Rightarrow> timer list \<Rightarrow> timer list \<Rightarrow> callback list
     \<Rightarrow> (error \<times> timer list \<times> callback list) + (timer list \<times> callback list)" where
  "timer_loop fails now seen [] calls = Inr (seen, calls)"
| "timer_loop fails now seen (t # ts) calls =
     (if due t now then
        (if fails (timer_callback t)
         then Inl (CallbackError, seen @ t # ts, calls @ [timer_callback t])
         else timer_loop fails now (seen @ [reschedule t]) ts
                (calls @ [timer_callback t]))
      else timer_loop fails now (seen @ [t]) ts calls)"

definition timer_tick :: "(callback \<Rightarrow> bool) \<Rightarrow> timing \<Rightarrow> (error \<times> timing) + timing" where
  "timer_tick fails tm =
     (let tm1 = tm\<lparr>tick := tick tm + 1\<rparr>
      in case timer_loop fails (tick tm1) [] (timers tm1) (timer_calls tm1) of
           Inl (e, ts, calls) \<Rightarrow> Inl (e, tm1\<lparr>timers := ts, timer_calls := calls\<rparr>)
         | Inr (ts, calls) \<Rightarrow> Inr (tm1\<lparr>timers := ts, timer_calls := calls\<rparr>))"

text \<open>\<open>int(x)\<close> on a float: truncation toward zero.\<close>

definition py_int :: "real \<Rightarrow> int" where
  "py_int x = (if 0 \<le> x then \<lfloor>x\<rfloor> else \<lceil>x\<rceil>)"

text \<open>
  \<^verbatim>\<open>int(ms / Timing.secs_per_tick / 1000)\<close> and \<^verbatim>\<open>int(s / Timing.secs_per_tick)\<close>.
  Dividing by \<open>None\<close> (timing not configured) raises TypeError.
\<close>

definition msecs :: "timing \<Rightarrow> real \<Rightarrow> error + int" where
  "msecs tm ms =
     (case secs_per_tick tm of
        None \<Rightarrow> Inl TypeError
      | Some spt \<Rightarrow>
          if spt = 0 then Inl ZeroDivisionError else Inr (py_int (ms / spt / 1000)))"

definition secs :: "timing \<Rightarrow> real \<Rightarrow> error + int" where
  "secs tm s =
     (case secs_per_tick tm of
        None \<Rightarrow> Inl TypeError
      | Some spt \<Rightarrow>
          if spt = 0 then Inl ZeroDivisionError else Inr (py_int (s / spt)))"

subsection \<open>time_to_ticks\<close>

text \<open>
  Python 2 byte strings: \<open>upper\<close> and \<open>isalpha\<close> act on the ASCII letters.
\<close>

definition upper :: "char \<Rightarrow> char" where
  "upper c =
     (case map_of (zip ''abcdefghijklmnopqrstuvwxyz'' ''ABCDEFGHIJKLMNOPQRSTUVWXYZ'') c of
        Some u \<Rightarrow> u
      | None \<Rightarrow> c)"

definition isalpha :: "char \<Rightarrow> bool" where
  "isalpha c =
     (c \<in> set ''abcdefghijklmnopqrstuvwxyzABCDEFGHIJKLMNOPQRSTUVWXYZ'')"

definition endswith :: "string \<Rightarrow> string \<Rightarrow> bool" where
  "endswith s suffix =
     (length suffix \<le> length s \<and> drop (length s - length suffix) s = suffix)"

text \<open>
  The builtin \<open>float\<close> on a string without letters (the only strings
  \<open>time_to_ticks\<close> passes to it): blanks around an optional sign and a decimal
  numeral with at most one point and at least one digit; anything else raises
  ValueError.
\<close>

definition isspace :: "char \<Rightarrow> bool" where
  "isspace c = (c \<in> set [CHR '' '', CHR 0x09, CHR 0x0A, CHR 0x0B, CHR 0x0C, CHR 0x0D])"

definition isdigit :: "char \<Rightarrow> bool" where
  "isdigit c = (c \<in> set ''0123456789'')"

definition digits_val :: "string \<Rightarrow> nat" where
  "digits_val ds = foldl (\<lambda>a c. 10 * a + (of_char c - 48)) 0 ds"

definition strip :: "string \<Rightarrow> string" where
  "strip s = rev (dropWhile isspace (rev (dropWhile isspace s)))"

definition py_float :: "string \<Rightarrow> error + real" where
  "py_float s =
     (let t = strip s;
          neg = (t \<noteq> [] \<and> hd t = CHR ''-'');
          u = (if t \<noteq> [] \<and> (hd t = CHR ''-'' \<or> hd t = CHR ''+'') then tl t else t);
          ip = takeWhile isdigit u;
          r = dropWhile isdigit u;
          fp = (if r = [] then [] else tl r);
          v = real (digits_val ip) + real (digits_val fp) / 10 ^ length fp
      in if (ip \<noteq> [] \<or> fp \<noteq> []) \<and> (r = [] \<or> hd r = CHR ''.'') \<and> list_all isdigit fp
         then Inr (if neg then - v else v)
         else Inl ValueError)"

text \<open>
  \<^verbatim>\<open>time = str(time).upper()\<close>, then the test on the suffix, then
  \<^verbatim>\<open>''.join(i for i in time if not i.isalpha())\<close> and \<open>float\<close> in either branch.
\<close>

definition time_to_ticks :: "timing \<Rightarrow> string \<Rightarrow> error + int" where
  "time_to_ticks tm time0 =
     (let time1 = map upper time0
      in if endswith time1 ''ms'' \<or> endswith time1 ''msec'' then
           (case py_float (filter (\<lambda>i. \<not> isalpha i) time1) of
              Inl e \<Rightarrow> Inl e
            | Inr x \<Rightarrow> msecs tm x)
         else
           (case py_float (filter (\<lambda>i. \<not> isalpha i) time1) of
              Inl e \<Rightarrow> Inl e
            | Inr x \<Rightarrow> secs tm x))"

section \<open>switch_controller.py\<close>

text \<open>
  A switch device of \<open>machine.switches\<close>. The device class is not among the
  source files; these are the attributes the controller reads.
\<close>

record switch_dev =
  sw_name :: string
  sw_number :: int
  sw_type :: string
  sw_tags :: "string list"
  sw_state :: int

text \<open>A value of the dict \<open>switches\<close>: \<^verbatim>\<open>{'state': state, 'time': Timing.tick}\<close>.\<close>

record switch_entry =
  entry_state :: int
  entry_time :: int

text \<open>A registration: \<^verbatim>\<open>{'ticks': ticks, 'callback': callback}\<close>.\<close>

record handler =
  handler_ticks :: int
  handler_callback :: callback

text \<open>A pending fire: \<^verbatim>\<open>{'switch_action': ..., 'callback': ...}\<close>.\<close>

record pending =
  switch_action :: string
  pending_callback :: callback

text \<open>
  The controller. \<open>registered_switches\<close> and \<open>switches\<close> are only looked up by
  key and are maps; \<open>active_timed_switches\<close> is iterated over and is an
  association list, whose order stands for the dict's iteration order.
  \<open>Timing_tick\<close> is the class attribute \<open>Timing.tick\<close> the controller reads,
  \<open>calls\<close> the log of callback invocations and \<open>posted\<close> the log of
  \<open>machine.events.post\<close>.
\<close>

record switch_controller =
  machine_switches :: "switch_dev list"
  registered_switches :: "string \<rightharpoonup> handler list"
  active_timed_switches :: "(int \<times> pending list) list"
  switches :: "string \<rightharpoonup> switch_entry"
  Timing_tick :: int
  calls :: "callback list"
  posted :: "string list"

definition SwitchController_init :: "switch_dev list \<Rightarrow> switch_controller" where
  "SwitchController_init sws =
     \<lparr>machine_switches = sws, registered_switches = Map.empty,
      active_timed_switches = [], switches = Map.empty, Timing_tick = 0,
      calls = [], posted = []\<rparr>"

text \<open>\<open>str\<close> of an integer.\<close>

fun str_nat :: "nat \<Rightarrow> string" where
  "str_nat n =
     (if n < 10 then [''0123456789'' ! n]
      else str_nat (n div 10) @ [''0123456789'' ! (n mod 10)])"

declare str_nat.simps [simp del]

definition str_int :: "int \<Rightarrow> string" where
  "str_int i = (if i < 0 then CHR ''-'' # str_nat (nat (- i)) else str_nat (nat i))"

text \<open>\<^verbatim>\<open>str(name) + '-' + str(state)\<close>\<close>

definition action_key :: "string \<Rightarrow> int \<Rightarrow> string" where
  "action_key name st = name @ ''-'' @ str_int st"

text \<open>Dict operations on the association list.\<close>

definition dict_keys :: "('k \<times> 'v) list \<Rightarrow> 'k set" where
  "dict_keys d = set (map fst d)"

definition dict_del :: "('k \<times> 'v) list \<Rightarrow> 'k \<Rightarrow> ('k \<times> 'v) list" where
  "dict_del d k = filter (\<lambda>kv. fst kv \<noteq> k) d"

text \<open>\<^verbatim>\<open>d[key].append(value)\<close> on a \<open>defaultdict(list)\<close>.\<close>

fun dict_append :: "('k \<times> 'v list) list \<Rightarrow> 'k \<Rightarrow> 'v \<Rightarrow> ('k \<times> 'v list) list" where
  "dict_append [] k x = [(k, [x])]"
| "dict_append ((k', v) # d) k x =
     (if k' = k then (k', v @ [x]) # d else (k', v) # dict_append d k x)"

definition find_switch :: "switch_dev list \<Rightarrow> string \<Rightarrow> switch_dev option" where
  "find_switch sws name = find (\<lambda>sw. sw_name sw = name) sws"

definition ticks_since_change :: "switch_controller \<Rightarrow> string \<Rightarrow> error + int" where
  "ticks_since_change sc switch_name =
     (case switches sc switch_name of
        None \<Rightarrow> Inl KeyError
      | Some e \<Rightarrow> Inr (Timing_tick sc - entry_time e))"

definition is_state :: "switch_controller \<Rightarrow> string \<Rightarrow> int \<Rightarrow> int \<Rightarrow> error + bool" where
  "is_state sc switch_name st tks =
     (case switches sc switch_name of
        None \<Rightarrow> Inl KeyError
      | Some e \<Rightarrow>
          if entry_state e = st then
            (case ticks_since_change sc switch_name of
               Inl err \<Rightarrow> Inl err
             | Inr n \<Rightarrow> Inr (tks \<le> n))
          else Inr False)"

definition set_state :: "switch_controller \<Rightarrow> string \<Rightarrow> int \<Rightarrow> switch_controller" where
  "set_state sc switch_name st =
     sc\<lparr>switches := (switches sc)(switch_name \<mapsto>
           \<lparr>entry_state = st, entry_time = Timing_tick sc\<rparr>)\<rparr>"

text \<open>
  "Find the switch name": \<open>num\<close> wins over \<open>obj\<close>, the last switch with that
  number wins, and \<open>name\<close> stays as passed when no switch has the number.
\<close>

definition resolve_name ::
  "switch_controller \<Rightarrow> string option \<Rightarrow> int option \<Rightarrow> switch_dev option \<Rightarrow> string option" where
  "resolve_name sc name num obj =
     (case num of
        Some n \<Rightarrow>
          foldl (\<lambda>nm sw. if sw_number sw = n then Some (sw_name sw) else nm)
            name (machine_switches sc)
      | None \<Rightarrow> (case obj of Some ob \<Rightarrow> Some (sw_name ob) | None \<Rightarrow> name))"

text \<open>
  The loop over \<^verbatim>\<open>self.registered_switches[switch_key]\<close>: a registration with
  non-zero ticks is queued at \<open>Timing.tick + ticks\<close>, one with zero ticks is
  called at once.
\<close>

fun run_entries ::
  "(callback \<Rightarrow> bool) \<Rightarrow> string \<Rightarrow> handler list \<Rightarrow> switch_controller
     \<Rightarrow> (error \<times> switch_controller) + switch_controller" where
  "run_entries fails act [] sc = Inr sc"
| "run_entries fails act (entry # entries) sc =
     (if handler_ticks entry \<noteq> 0 then
        run_entries fails act entries
          (sc\<lparr>active_timed_switches :=
                dict_append (active_timed_switches sc)
                  (Timing_tick sc + handler_ticks entry)
                  \<lparr>switch_action = act, pending_callback = handler_callback entry\<rparr>\<rparr>)
      else if fails (handler_callback entry) then
        Inl (CallbackError, sc\<lparr>calls := calls sc @ [handler_callback entry]\<rparr>)
      else
        run_entries fails act entries
          (sc\<lparr>calls := calls sc @ [handler_callback entry]\<rparr>))"

text \<open>
  The cancellation sweep. The outer loop runs over \<open>items()\<close>, a copy of the
  dict taken before the loop (Python 2); the inner loop runs over one bucket and
  executes \<^verbatim>\<open>del self.active_timed_switches[k]\<close> at every item whose
  \<open>switch_action\<close> is the opposite one. The \<open>del\<close> raises KeyError when the key
  is already gone, which is what a second matching item of a bucket meets.
\<close>

fun sweep_items ::
  "string \<Rightarrow> int \<Rightarrow> pending list \<Rightarrow> (int \<times> pending list) list
     \<Rightarrow> (error \<times> (int \<times> pending list) list) + (int \<times> pending list) list" where
  "sweep_items opp k [] d = Inr d"
| "sweep_items opp k (item # v) d =
     (if switch_action item = opp then
        (if k \<in> dict_keys d then sweep_items opp k v (dict_del d k)
         else Inl (KeyError, d))
      else sweep_items opp k v d)"

fun sweep ::
  "string \<Rightarrow> (int \<times> pending list) list \<Rightarrow> (int \<times> pending list) list
     \<Rightarrow> (error \<times> (int \<times> pending list) list) + (int \<times> pending list) list" where
  "sweep opp [] d = Inr d"
| "sweep opp ((k, v) # snapshot) d =
     (case sweep_items opp k v d of
        Inl err \<Rightarrow> Inl err
      | Inr d' \<Rightarrow> sweep opp snapshot d')"

text \<open>\<open>_post_switch_events\<close>: one \<open>sw_\<close> event per tag when the state is 1.\<close>

definition post_switch_events ::
  "switch_controller \<Rightarrow> string \<Rightarrow> int \<Rightarrow> (error \<times> switch_controller) + switch_controller" where
  "post_switch_events sc switch_name st =
     (if st = 1 then
        (case find_switch (machine_switches sc) switch_name of
           None \<Rightarrow> Inl (KeyError, sc)
         | Some sw \<Rightarrow> Inr (sc\<lparr>posted := posted sc @ map (\<lambda>tag. ''sw_'' @ tag) (sw_tags sw)\<rparr>))
      else Inr sc)"

text \<open>
  \<open>process_switch(name, state, logical, num, obj)\<close>. A name that is None or
  not in \<open>machine.switches\<close> raises at the first lookup, before any change.
\<close>

definition process_switch ::
  "(callback \<Rightarrow> bool) \<Rightarrow> switch_controller \<Rightarrow> string option \<Rightarrow> int \<Rightarrow> bool
     \<Rightarrow> int option \<Rightarrow> switch_dev option
     \<Rightarrow> (error \<times> switch_controller) + switch_controller" where
  "process_switch fails sc name0 state0 logical num obj =
     (case resolve_name sc name0 num obj of
        None \<Rightarrow> Inl (KeyError, sc)
      | Some name \<Rightarrow>
          (case find_switch (machine_switches sc) name of
             None \<Rightarrow> Inl (KeyError, sc)
           | Some sw \<Rightarrow>
               (let st = (if sw_type sw = ''NC'' \<and> \<not> logical then state0 XOR 1 else state0);
                    sc1 = set_state sc name st;
                    switch_key = action_key name st
                in case (case registered_switches sc1 switch_key of
                           None \<Rightarrow> Inr sc1
                         | Some entries \<Rightarrow> run_entries fails switch_key entries sc1) of
                     Inl err \<Rightarrow> Inl err
                   | Inr sc2 \<Rightarrow>
                       (case sweep (action_key name (st XOR 1))
                               (active_timed_switches sc2) (active_timed_switches sc2) of
                          Inl (e, d) \<Rightarrow> Inl (e, sc2\<lparr>active_timed_switches := d\<rparr>)
                        | Inr d \<Rightarrow>
                            post_switch_events (sc2\<lparr>active_timed_switches := d\<rparr>) name st))))"

text \<open>
  \<open>add_switch_handler(switch_name, callback, state, ms)\<close>. The argument
  \<open>ticks\<close> is the value of the local variable of that name,
  \<^verbatim>\<open>int(math.ceil(ms/Timing.secs_per_tick/1000))\<close>, a floating-point
  computation left outside the model; it is negative for a negative \<open>ms\<close>.
\<close>

definition add_switch_handler ::
  "switch_controller \<Rightarrow> string \<Rightarrow> callback \<Rightarrow> int \<Rightarrow> int \<Rightarrow> switch_controller" where
  "add_switch_handler sc switch_name cb st ticks =
     (let entry_val = \<lparr>handler_ticks = ticks, handler_callback = cb\<rparr>;
          entry_key = action_key switch_name st
      in sc\<lparr>registered_switches := (registered_switches sc)(entry_key \<mapsto>
            (case registered_switches sc entry_key of None \<Rightarrow> [] | Some es \<Rightarrow> es)
              @ [entry_val])\<rparr>)"

text \<open>
  \<open>_tick\<close>: the outer loop runs over a copy of the dict; a bucket whose key is
  not after \<open>Timing.tick\<close> has its callbacks called in order and is then
  deleted. A callback that raises leaves the bucket in place.
\<close>

fun run_callbacks ::
  "(callback \<Rightarrow> bool) \<Rightarrow> pending list \<Rightarrow> callback list
     \<Rightarrow> (error \<times> callback list) + callback list" where
  "run_callbacks fails [] trace = Inr trace"
| "run_callbacks fails (item # v) trace =
     (if fails (pending_callback item) then Inl (CallbackError, trace @ [pending_callback item])
      else run_callbacks fails v (trace @ [pending_callback item]))"

fun tick_loop ::
  "(callback \<Rightarrow> bool) \<Rightarrow> (int \<times> pending list) list \<Rightarrow> switch_controller
     \<Rightarrow> (error \<times> switch_controller) + switch_controller" where
  "tick_loop fails [] sc = Inr sc"
| "tick_loop fails ((k, v) # snapshot) sc =
     (if k \<le> Timing_tick sc then
        (case run_callbacks fails v (calls sc) of
           Inl (e, trace) \<Rightarrow> Inl (e, sc\<lparr>calls := trace\<rparr>)
         | Inr trace \<Rightarrow>
             if k \<in> dict_keys (active_timed_switches sc) then
               tick_loop fails snapshot
                 (sc\<lparr>calls := trace,
                     active_timed_switches := dict_del (active_timed_switches sc) k\<rparr>)
             else Inl (KeyError, sc\<lparr>calls := trace\<rparr>))
      else tick_loop fails snapshot sc)"

definition SwitchController_tick ::
  "(callback \<Rightarrow> bool) \<Rightarrow> switch_controller \<Rightarrow> (error \<times> switch_controller) + switch_controller" where
  "SwitchController_tick fails sc = tick_loop fails (active_timed_switches sc) sc"

text \<open>
  Modelled from the spec: the machine's main loop, which is not among the
  source files. "Once per tick the timing service advances the tick counter,
  calls due periodic timers, and re-invokes the switch controller's tick hook."
  The advance is the first statement of \<open>Timing.timer_tick\<close>; the hook is
  \<open>_tick\<close>, which the constructor subscribes to the event \<open>timer_tick\<close>.
\<close>

definition machine_tick ::
  "(callback \<Rightarrow> bool) \<Rightarrow> switch_controller \<Rightarrow> (error \<times> switch_controller) + switch_controller" where
  "machine_tick fails sc =
     SwitchController_tick fails (sc\<lparr>Timing_tick := Timing_tick sc + 1\<rparr>)"

text \<open>\<open>initialize_hw_states\<close>: \<open>process_switch(switch.name, switch.state)\<close> for each switch.\<close>

fun hw_states_loop ::
  "(callback \<Rightarrow> bool) \<Rightarrow> switch_dev list \<Rightarrow> switch_controller
     \<Rightarrow> (error \<times> switch_controller) + switch_controller" where
  "hw_states_loop fails [] sc = Inr sc"
| "hw_states_loop fails (sw # sws) sc =
     (case process_switch fails sc (Some (sw_name sw)) (sw_state sw) False None None of
        Inl err \<Rightarrow> Inl err
      | Inr sc' \<Rightarrow> hw_states_loop fails sws sc')"

definition initialize_hw_states ::
  "(callback \<Rightarrow> bool) \<Rightarrow> switch_controller \<Rightarrow> (error \<times> switch_controller) + switch_controller" where
  "initialize_hw_states fails sc = hw_states_loop fails (machine_switches sc) sc"

section \<open>accelerometer.py\<close>

text \<open>
  An event handed to \<open>machine.events.post\<close>: its name and its keyword payload.
\<close>

datatype event = Event string "(string \<times> real) list"

text \<open>
  The entries of \<open>self.config\<close> that the device reads, the two dicts as
  association lists in iteration order. \<open>alpha\<close> is the entry the
  specification names; no line of the source reads it.
\<close>

record accel_config =
  level_x :: real
  level_y :: real
  level_z :: real
  level_limits :: "(real \<times> string) list"
  hit_limits :: "(real \<times> string) list"
  alpha :: "real option"

text \<open>
  \<open>self.history\<close> starts as \<open>False\<close>, here \<open>None\<close>; a tuple of three numbers
  is true in Python whatever the numbers are.
\<close>

record accelerometer =
  acc_config :: accel_config
  acc_history :: "(real \<times> real \<times> real) option"
  acc_value :: "(real \<times> real \<times> real) option"
  acc_posted :: "event list"

definition calculate_vector_length :: "real \<Rightarrow> real \<Rightarrow> real \<Rightarrow> real" where
  "calculate_vector_length x y z = sqrt (x * x + y * y + z * z)"

text \<open>
  \<open>math.acos\<close> raises ValueError outside \<open>[-1, 1]\<close>; a float division by zero
  raises ZeroDivisionError.
\<close>

definition calculate_angle ::
  "real \<Rightarrow> real \<Rightarrow> real \<Rightarrow> real \<Rightarrow> real \<Rightarrow> real \<Rightarrow> error + real" where
  "calculate_angle x1 y1 z1 x2 y2 z2 =
     (let d = calculate_vector_length x1 y1 z1 * calculate_vector_length x2 y2 z2
      in if d = 0 then Inl ZeroDivisionError
         else (let c = (x1 * x2 + y1 * y2 + z1 * z2) / d
               in if c < - 1 \<or> 1 < c then Inl ValueError else Inr (arccos c)))"

definition handle_hits :: "accelerometer \<Rightarrow> real \<Rightarrow> real \<Rightarrow> real \<Rightarrow> accelerometer" where
  "handle_hits acc dx dy dz =
     (let acceleration = calculate_vector_length dx dy dz
      in acc\<lparr>acc_posted := acc_posted acc @
           map (\<lambda>lim. Event (snd lim) [])
             (filter (\<lambda>lim. acceleration > fst lim) (hit_limits (acc_config acc)))\<rparr>)"

definition handle_level ::
  "accelerometer \<Rightarrow> real \<Rightarrow> real \<Rightarrow> real \<Rightarrow> (error \<times> accelerometer) + accelerometer" where
  "handle_level acc x y z =
     (let c = acc_config acc
      in case calculate_angle (level_x c) (level_y c) (level_z c) x y z of
           Inl e \<Rightarrow> Inl (e, acc)
         | Inr deviation_total \<Rightarrow>
             (case calculate_angle 0 (level_y c) (level_z c) 0 y z of
                Inl e \<Rightarrow> Inl (e, acc)
              | Inr deviation_x \<Rightarrow>
                  (case calculate_angle (level_x c) 0 (level_z c) x 0 z of
                     Inl e \<Rightarrow> Inl (e, acc)
                   | Inr deviation_y \<Rightarrow>
                       Inr (acc\<lparr>acc_posted := acc_posted acc @
                              map (\<lambda>lim. Event (snd lim)
                                     [(''deviation_total'', deviation_total),
                                      (''deviation_x'', deviation_x),
                                      (''deviation_y'', deviation_y)])
                                (filter (\<lambda>lim. deviation_total / pi * 180 > fst lim)
                                   (level_limits c))\<rparr>))))"

text \<open>
  Lines 47 to 58 of \<open>update_acceleration\<close>: the deltas handed to
  \<open>_handle_hits\<close> and the update of \<open>self.history\<close>, with \<^verbatim>\<open>alpha = 0.95\<close>.
\<close>

definition filter_sample ::
  "accelerometer \<Rightarrow> real \<Rightarrow> real \<Rightarrow> real \<Rightarrow> accelerometer \<times> (real \<times> real \<times> real)" where
  "filter_sample acc x y z =
     (case acc_history acc of
        None \<Rightarrow> (acc\<lparr>acc_history := Some (x, y, z)\<rparr>, (0, 0, 0))
      | Some (hx, hy, hz) \<Rightarrow>
          (let alpha = 0.95
           in (acc\<lparr>acc_history := Some (hx * alpha + x * (1 - alpha),
                                        hy * alpha + y * (1 - alpha),
                                        hz * alpha + z * (1 - alpha))\<rparr>,
               (x - hx, y - hy, z - hz))))"

definition update_acceleration ::
  "accelerometer \<Rightarrow> real \<Rightarrow> real \<Rightarrow> real \<Rightarrow> (error \<times> accelerometer) + accelerometer" where
  "update_acceleration acc x y z =
     (case filter_sample (acc\<lparr>acc_value := Some (x, y, z)\<rparr>) x y z of
        (acc1, (dx, dy, dz)) \<Rightarrow> handle_level (handle_hits acc1 dx dy dz) x y z)"

section \<open>Properties of the controller state\<close>

text \<open>
  Every key of \<open>active_timed_switches\<close> lies after the current tick.
\<close>

definition timed_keys_future :: "switch_controller \<Rightarrow> bool" where
  "timed_keys_future sc =
     list_all (\<lambda>kv. Timing_tick sc < fst kv) (active_timed_switches sc)"

text \<open>No registration has a negative number of ticks.\<close>

definition dwell_nonneg :: "switch_controller \<Rightarrow> bool" where
  "dwell_nonneg sc =
     (\<forall>key entries. registered_switches sc key = Some entries \<longrightarrow>
        list_all (\<lambda>entry. 0 \<le> handler_ticks entry) entries)"

text \<open>Sequencing of calls: the next call runs if the previous one returned.\<close>

definition and_then ::
  "(error \<times> 's) + 's \<Rightarrow> ('s \<Rightarrow> (error \<times> 's) + 's) \<Rightarrow> (error \<times> 's) + 's" where
  "and_then r f = (case r of Inl err \<Rightarrow> Inl err | Inr s \<Rightarrow> f s)"

fun machine_ticks ::
  "(callback \<Rightarrow> bool) \<Rightarrow> nat \<Rightarrow> switch_controller
     \<Rightarrow> (error \<times> switch_controller) + switch_controller" where
  "machine_ticks fails 0 sc = Inr sc"
| "machine_ticks fails (Suc n) sc = and_then (machine_tick fails sc) (machine_ticks fails n)"

text \<open>
  The number of pending fires of a callback queued under a key.
\<close>

definition fires_at :: "(int \<times> pending list) list \<Rightarrow> int \<Rightarrow> callback \<Rightarrow> nat" where
  "fires_at d k cb =
     sum_list (map (\<lambda>kv. count_list (map pending_callback (snd kv)) cb)
                 (filter (\<lambda>kv. fst kv = k) d))"

text \<open>Concrete objects used for evaluation.\<close>

definition no_failure :: "callback \<Rightarrow> bool" where
  "no_failure cb = False"

definition switch_S :: switch_dev where
  "switch_S = \<lparr>sw_name = ''S'', sw_number = 1, sw_type = ''NO'',
     sw_tags = [''left_flipper''], sw_state = 0\<rparr>"

definition switch_N :: switch_dev where
  "switch_N = \<lparr>sw_name = ''N'', sw_number = 2, sw_type = ''NC'', sw_tags = [],
     sw_state = 0\<rparr>"

definition sc_demo :: switch_controller where
  "sc_demo = SwitchController_init [switch_S, switch_N]"


definition timing_50 :: timing where
  "timing_50 = Timing_init\<lparr>HZ := Some 50, secs_per_tick := Some (1 / 50)\<rparr>"

definition heartbeat :: timer where
  "heartbeat = \<lparr>timer_callback = ''beat'', timer_args = [], wakeup = Some 1,
     frequency = Some 5\<rparr>"

definition timing_beat :: timing where
  "timing_beat = timing_50\<lparr>timers := [heartbeat]\<rparr>"

definition level_config :: accel_config where
  "level_config = \<lparr>level_x = 0, level_y = 0, level_z = 1,
     level_limits = [(30, ''tilted'')], hit_limits = [(1 / 2, ''tilt_warning'')],
     alpha = Some (1 / 2)\<rparr>"

definition acc_fresh :: accelerometer where
  "acc_fresh = \<lparr>acc_config = level_config, acc_history = None, acc_value = None,
     acc_posted = []\<rparr>"

definition acc_settled :: accelerometer where
  "acc_settled = acc_fresh\<lparr>acc_history := Some (0, 0, 1), acc_value := Some (0, 0, 1)\<rparr>"


definition hold_S :: pending where
  "hold_S = \<lparr>switch_action = ''S-1'', pending_callback = ''hold_S''\<rparr>"

definition hold_N :: pending where
  "hold_N = \<lparr>switch_action = ''N-1'', pending_callback = ''hold_N''\<rparr>"

definition sc_registered :: switch_controller where
  "sc_registered =
     add_switch_handler (add_switch_handler sc_demo ''S'' ''hold_S'' 1 5) ''N'' ''hold_N'' 1 5"

definition sc_both :: switch_controller where
  "sc_both = sc_registered
     \<lparr>active_timed_switches := [(5, [hold_S, hold_N])],
      switches := [''S'' \<mapsto> \<lparr>entry_state = 1, entry_time = 0\<rparr>,
                   ''N'' \<mapsto> \<lparr>entry_state = 1, entry_time = 0\<rparr>],
      posted := [''sw_left_flipper'']\<rparr>"

definition sc_negative :: switch_controller where
  "sc_negative = add_switch_handler sc_demo ''S'' ''early'' 1 (- 5)"

definition sc_two_dwells :: switch_controller where
  "sc_two_dwells =
     add_switch_handler (add_switch_handler sc_demo ''S'' ''slow'' 0 10) ''S'' ''fast'' 1 5"

definition sc_released :: switch_controller where
  "sc_released = sc_two_dwells
     \<lparr>active_timed_switches :=
        [(10, [\<lparr>switch_action = ''S-0'', pending_callback = ''slow''\<rparr>])],
      switches := [''S'' \<mapsto> \<lparr>entry_state = 0, entry_time = 0\<rparr>]\<rparr>"

definition sc_pressed :: switch_controller where
  "sc_pressed = sc_two_dwells
     \<lparr>active_timed_switches := [],
      switches := [''S'' \<mapsto> \<lparr>entry_state = 1, entry_time = 5\<rparr>],
      Timing_tick := 5,
      posted := [''sw_left_flipper'']\<rparr>"

definition sc_held :: switch_controller where
  "sc_held = sc_registered\<lparr>active_timed_switches := [(5, [hold_S])],
            switches := [''S'' \<mapsto> \<lparr>entry_state = 1, entry_time = 0\<rparr>],
            posted := [''sw_left_flipper'']\<rparr>"

text \<open>
  Runs of public operations of the controller: each operation is applied to
  the state the previous one returned.
\<close>

datatype switch_op =
    Process_switch "string option" int bool "int option" "switch_dev option"
  | Add_switch_handler string callback int int
  | Machine_tick

fun apply_op ::
  "(callback \<Rightarrow> bool) \<Rightarrow> switch_op \<Rightarrow> switch_controller
     \<Rightarrow> (error \<times> switch_controller) + switch_controller" where
  "apply_op fails (Process_switch name0 state0 logical num obj) sc =
     process_switch fails sc name0 state0 logical num obj"
| "apply_op fails (Add_switch_handler switch_name cb st ticks) sc =
     Inr (add_switch_handler sc switch_name cb st ticks)"
| "apply_op fails Machine_tick sc = machine_tick fails sc"

fun run ::
  "(callback \<Rightarrow> bool) \<Rightarrow> switch_op list \<Rightarrow> switch_controller
     \<Rightarrow> (error \<times> switch_controller) + switch_controller" where
  "run fails [] sc = Inr sc"
| "run fails (op # ops) sc = and_then (apply_op fails op sc) (run fails ops)"









section \<open>Timing: configuration\<close>

lemma float_overflows_small: "\<bar>n\<bar> \<le> 1000000 \<Longrightarrow> \<not> float_overflows n"
proof -
  have "(1000000 :: int) < 2 ^ 1024 - 2 ^ 970" by simp
  then show "\<bar>n\<bar> \<le> 1000000 \<Longrightarrow> \<not> float_overflows n"
    by (simp add: float_overflows_def)
qed

lemma configure_nonzero:
  "hz \<noteq> 0 \<Longrightarrow> \<not> float_overflows hz \<Longrightarrow>
     configure tm hz = Inr (tm\<lparr>HZ := Some hz, secs_per_tick := Some (1 / real_of_int hz)\<rparr>)"
  by (simp add: configure_def)

lemma configure_zero:
  "configure tm 0 = Inl (ZeroDivisionError, tm\<lparr>HZ := Some 0\<rparr>)"
  by (simp add: configure_def float_overflows_def)

text \<open>
  C5, as stated, fails: \<open>configure\<close> returns normally at a negative rate, and
  a second call with another rate returns normally too and overwrites the first.
\<close>

theorem configure_accepts_bad_rates:
  "configure Timing_init (- 50) =
     Inr (Timing_init\<lparr>HZ := Some (- 50), secs_per_tick := Some (- (1 / 50))\<rparr>) \<and>
   configure Timing_init 50 = Inr timing_50 \<and>
   configure timing_50 60 = Inr (timing_50\<lparr>HZ := Some 60, secs_per_tick := Some (1 / 60)\<rparr>)"
  by (simp add: configure_def timing_50_def float_overflows_small)

text \<open>
  C5, amended: \<open>configure\<close> never raises MisconfiguredError. On every call with
  a rate other than 0 and within the float range, a negative rate and a
  repeated call with a different rate included, it returns normally and sets
  \<open>HZ\<close> to the rate and \<open>secs_per_tick\<close> to its inverse; at rate 0 it raises
  ZeroDivisionError and at a rate beyond the float range OverflowError, having
  stored the rate in \<open>HZ\<close> in both cases.
\<close>

theorem configure_sets_rate:
  "(hz \<noteq> 0 \<and> \<not> float_overflows hz \<longrightarrow>
      (\<exists>tm'. configure tm hz = Inr tm' \<and> HZ tm' = Some hz \<and>
         secs_per_tick tm' = Some (1 / real_of_int hz))) \<and>
   (hz = 0 \<longrightarrow> configure tm hz = Inl (ZeroDivisionError, tm\<lparr>HZ := Some 0\<rparr>)) \<and>
   (float_overflows hz \<longrightarrow> configure tm hz = Inl (OverflowError, tm\<lparr>HZ := Some hz\<rparr>)) \<and>
   (\<forall>s. configure tm hz \<noteq> Inl (MisconfiguredError, s))"
  by (auto simp: configure_def Let_def float_overflows_def)

theorem configure_sets_rate_witness:
  "(60 :: int) \<noteq> 0 \<and> \<not> float_overflows 60 \<and>
   HZ (state_of (configure timing_50 60)) = Some 60 \<and>
   secs_per_tick (state_of (configure timing_50 60)) = Some (1 / 60) \<and>
   configure timing_50 0 = Inl (ZeroDivisionError, timing_50\<lparr>HZ := Some 0\<rparr>) \<and>
   float_overflows (2 ^ 1024) \<and>
   configure timing_50 (2 ^ 1024) = Inl (OverflowError, timing_50\<lparr>HZ := Some (2 ^ 1024)\<rparr>)"
proof -
  have small: "\<not> float_overflows 60" by (simp add: float_overflows_small)
  have big: "float_overflows (2 ^ 1024)" by (simp add: float_overflows_def)
  show ?thesis
    using small big configure_sets_rate [of 60 timing_50] configure_sets_rate [of 0 timing_50]
      configure_sets_rate [of "2 ^ 1024" timing_50]
    by (auto simp: state_of_def)
qed

section \<open>Timing: timers\<close>

text \<open>
  C10. The docstring of \<open>Timer\<close> says "The frequency can be set to None so that
  the timer is not enabled, but it still exists", and \<open>timer_tick\<close> treats a
  timer without wakeup as not due; but the constructor divides the frequency by
  1000 before anything else, so a Timer without frequency is never built: the
  constructor raises TypeError, whatever the state of the timing service.
\<close>

theorem Timer_init_without_frequency:
  "Timer_init tm cb args None = Inl TypeError"
  by (simp add: Timer_init_def)

lemma dormant_not_due: "wakeup t = None \<Longrightarrow> \<not> due t now"
  by (simp add: due_def)

lemma timer_loop_raises:
  "timer_loop fails now seen ts cs = Inl (e, ts', cs') \<Longrightarrow>
     e = CallbackError \<and>
     (\<exists>pre pre' t rest. ts = pre @ t # rest \<and> ts' = seen @ pre' @ t # rest \<and>
        length pre' = length pre \<and> due t now \<and> fails (timer_callback t))"
proof (induction ts arbitrary: seen cs)
  case Nil
  then show ?case by simp
next
  case (Cons a ts)
  show ?case
  proof (cases "due a now")
    case True
    show ?thesis
    proof (cases "fails (timer_callback a)")
      case True
      with \<open>due a now\<close> Cons.prems have "e = CallbackError" "ts' = seen @ a # ts"
        by simp_all
      with True \<open>due a now\<close> show ?thesis
        by (intro conjI exI [of _ "[]"] exI [of _ a] exI [of _ ts]) simp_all
    next
      case False
      with \<open>due a now\<close> Cons.prems
      have "timer_loop fails now (seen @ [reschedule a]) ts (cs @ [timer_callback a])
              = Inl (e, ts', cs')" by simp
      from Cons.IH [OF this] obtain pre pre' t rest where
        "e = CallbackError" "ts = pre @ t # rest"
        "ts' = (seen @ [reschedule a]) @ pre' @ t # rest" "length pre' = length pre"
        "due t now" "fails (timer_callback t)" by blast
      then show ?thesis
        by (intro conjI exI [of _ "a # pre"] exI [of _ "reschedule a # pre'"]
              exI [of _ t] exI [of _ rest]) simp_all
    qed
  next
    case False
    with Cons.prems
    have "timer_loop fails now (seen @ [a]) ts cs = Inl (e, ts', cs')" by simp
    from Cons.IH [OF this] obtain pre pre' t rest where
      "e = CallbackError" "ts = pre @ t # rest"
      "ts' = (seen @ [a]) @ pre' @ t # rest" "length pre' = length pre"
      "due t now" "fails (timer_callback t)" by blast
    then show ?thesis
      by (intro conjI exI [of _ "a # pre"] exI [of _ "a # pre'"]
            exI [of _ t] exI [of _ rest]) simp_all
  qed
qed

lemma timer_loop_propagates:
  "t \<in> set ts \<Longrightarrow> due t now \<Longrightarrow> fails (timer_callback t) \<Longrightarrow>
     \<exists>r. timer_loop fails now seen ts cs = Inl r"
  by (induction ts arbitrary: seen cs) auto

text \<open>
  C6, as stated, fails: a periodic timer (every 5 ticks, due at tick 1) whose
  callback raises at tick 1 is still in the set with wakeup 1, not 1 + 5,
  when the exception leaves \<open>timer_tick\<close>.
\<close>

theorem timer_tick_wakeup_not_advanced:
  "timer_tick (\<lambda>cb. True) timing_beat =
     Inl (CallbackError, timing_beat\<lparr>tick := 1, timer_calls := [''beat'']\<rparr>) \<and>
   map wakeup (timers (state_of (timer_tick (\<lambda>cb. True) timing_beat))) = [Some 1] \<and>
   map wakeup (timers (state_of (timer_tick (\<lambda>cb. True) timing_beat))) \<noteq> [Some (1 + 5)]"
  by (simp add: timer_tick_def timing_beat_def timing_50_def Timing_init_def
        heartbeat_def due_def state_of_def)

text \<open>
  C6, amended: if the callback of a due timer raises during \<open>timer_tick\<close>, the
  exception propagates out of \<open>timer_tick\<close>; the timer set keeps its size and
  the timer whose callback raised is still in it, at the same place and
  unchanged: its wakeup has not been advanced, so that it is still due.
  (Timers visited before it have been rescheduled, those after it are untouched.)
\<close>

theorem timer_tick_callback_raises:
  assumes "t \<in> set (timers tm)" and "due t (tick tm + 1)"
    and "fails (timer_callback t)"
  shows "\<exists>tm' pre pre' u rest.
           timer_tick fails tm = Inl (CallbackError, tm') \<and>
           tick tm' = tick tm + 1 \<and>
           timers tm = pre @ u # rest \<and> timers tm' = pre' @ u # rest \<and>
           length pre' = length pre \<and>
           due u (tick tm') \<and> fails (timer_callback u)"
proof -
  obtain e ts' cs' where
    loop: "timer_loop fails (tick tm + 1) [] (timers tm) (timer_calls tm) = Inl (e, ts', cs')"
    using assms
      timer_loop_propagates [of t "timers tm" "tick tm + 1" fails "[]" "timer_calls tm"]
    by auto
  from timer_loop_raises [OF loop] obtain pre pre' u rest where
    e: "e = CallbackError" and
    parts: "timers tm = pre @ u # rest" "ts' = pre' @ u # rest" "length pre' = length pre"
      "due u (tick tm + 1)" "fails (timer_callback u)"
    by auto
  let ?tm' = "tm\<lparr>tick := tick tm + 1, timers := ts', timer_calls := cs'\<rparr>"
  have "timer_tick fails tm = Inl (CallbackError, ?tm')"
    using loop e by (simp add: timer_tick_def)
  with parts show ?thesis
    by (intro exI [of _ ?tm'] exI [of _ pre] exI [of _ pre'] exI [of _ u] exI [of _ rest])
      simp
qed

theorem timer_tick_callback_raises_witness:
  "heartbeat \<in> set (timers timing_beat) \<and> due heartbeat (tick timing_beat + 1) \<and>
   (\<exists>tm' pre pre' u rest.
      timer_tick (\<lambda>cb. True) timing_beat = Inl (CallbackError, tm') \<and>
      tick tm' = tick timing_beat + 1 \<and>
      timers timing_beat = pre @ u # rest \<and> timers tm' = pre' @ u # rest \<and>
      length pre' = length pre \<and>
      due u (tick tm') \<and> True)"
proof -
  have a: "heartbeat \<in> set (timers timing_beat)"
    by (simp add: timing_beat_def)
  have b: "due heartbeat (tick timing_beat + 1)"
    by (simp add: timing_beat_def timing_50_def Timing_init_def heartbeat_def due_def)
  show ?thesis
    using a b timer_tick_callback_raises [of heartbeat timing_beat "\<lambda>cb. True"] by simp
qed

section \<open>Timing: time_to_ticks\<close>

lemma upper_not_s: "upper c \<noteq> CHR ''s''"
  by (simp add: upper_def split: option.splits if_splits)

lemma upper_not_c: "upper c \<noteq> CHR ''c''"
  by (simp add: upper_def split: option.splits if_splits)

lemma endswith_last:
  assumes "endswith s suffix" "suffix \<noteq> []"
  shows "s \<noteq> [] \<and> last s = last suffix"
proof -
  from assms have len: "length suffix \<le> length s"
    and eq: "drop (length s - length suffix) s = suffix"
    by (simp_all add: endswith_def)
  from assms(2) len have ne: "s \<noteq> []" by auto
  have "s = take (length s - length suffix) s @ suffix"
    using eq by (metis append_take_drop_id)
  then have "last s = last (take (length s - length suffix) s @ suffix)" by simp
  also have "\<dots> = last suffix" using assms(2) by simp
  finally show ?thesis using ne by simp
qed

lemma upper_no_ms_suffix:
  "\<not> endswith (map upper s) ''ms''" "\<not> endswith (map upper s) ''msec''"
proof -
  show "\<not> endswith (map upper s) ''ms''"
  proof
    assume "endswith (map upper s) ''ms''"
    then have "map upper s \<noteq> [] \<and> last (map upper s) = CHR ''s''"
      using endswith_last [of "map upper s" "''ms''"] by simp
    then have "upper (last s) = CHR ''s''" by (auto simp: last_map)
    then show False using upper_not_s by blast
  qed
  show "\<not> endswith (map upper s) ''msec''"
  proof
    assume "endswith (map upper s) ''msec''"
    then have "map upper s \<noteq> [] \<and> last (map upper s) = CHR ''c''"
      using endswith_last [of "map upper s" "''msec''"] by simp
    then have "upper (last s) = CHR ''c''" by (auto simp: last_map)
    then show False using upper_not_c by blast
  qed
qed

text \<open>
  The test on the suffix compares the upper-cased string with the lower-case
  suffixes, so it never succeeds: every duration is read as seconds.
\<close>

lemma time_to_ticks_always_secs:
  "time_to_ticks tm s =
     (case py_float (filter (\<lambda>i. \<not> isalpha i) (map upper s)) of
        Inl e \<Rightarrow> Inl e
      | Inr x \<Rightarrow> secs tm x)"
  by (simp add: time_to_ticks_def Let_def upper_no_ms_suffix)

text \<open>
  C4. The docstring of \<open>time_to_ticks\<close> gives "200ms" as an input in
  milliseconds, and the code tests for the suffixes "ms" and "msec"; but at 50 Hz
  the string "200ms" yields 10000 ticks, which is \<open>secs(200)\<close>, where
  \<open>msecs(200)\<close> is 10 ticks. The forms "200s" and "200" yield \<open>secs(200)\<close> as
  claimed.
\<close>

theorem time_to_ticks_ms_read_as_seconds:
  "time_to_ticks timing_50 ''200ms'' = Inr 10000 \<and>
   msecs timing_50 200 = Inr 10 \<and>
   secs timing_50 200 = Inr 10000 \<and>
   time_to_ticks timing_50 ''200s'' = Inr 10000 \<and>
   time_to_ticks timing_50 ''200'' = Inr 10000"
  by (simp add: time_to_ticks_def upper_def endswith_def isalpha_def py_float_def
        strip_def isspace_def isdigit_def digits_val_def secs_def msecs_def
        timing_50_def Timing_init_def py_int_def)

section \<open>Accelerometer\<close>

lemma handle_hits_history: "acc_history (handle_hits acc dx dy dz) = acc_history acc"
  by (simp add: handle_hits_def Let_def)

lemma handle_level_history:
  "acc_history (state_of (handle_level acc x y z)) = acc_history acc"
  by (simp add: handle_level_def state_of_def Let_def split: sum.splits)

lemma update_acceleration_history:
  "acc_history (state_of (update_acceleration acc x y z)) =
     acc_history (fst (filter_sample (acc\<lparr>acc_value := Some (x, y, z)\<rparr>) x y z))"
  by (simp add: update_acceleration_def handle_level_history handle_hits_history
        split: prod.splits)

text \<open>
  C7, as stated, fails: with \<open>alpha\<close> set to 1/2 in the configuration, a
  filtered state (0, 0, 1) and the sample (0, 0, 2), the new filtered state is
  (0, 0, 1.05), which is the smoothing with 0.95, not with the configured 1/2.
\<close>

theorem filter_ignores_configured_alpha:
  "alpha (acc_config acc_settled) = Some (1 / 2) \<and>
   acc_history (state_of (update_acceleration acc_settled 0 0 2)) = Some (0, 0, 21 / 20) \<and>
   (21 / 20 :: real) \<noteq> 1 * (1 / 2) + 2 * (1 - 1 / 2)"
  by (simp add: update_acceleration_history filter_sample_def acc_settled_def
        acc_fresh_def level_config_def)

text \<open>
  C7, amended: for every call to \<open>update_acceleration\<close> after the first sample,
  the deltas handed to hit detection are the new sample minus the pre-update
  filtered state, and the filtered state becomes
  \<open>0.95 * filtered + (1 - 0.95) * sample\<close>: the coefficient is the constant 0.95,
  whatever the configuration holds. The filtered state is updated also when level
  detection raises afterwards.
\<close>

theorem update_acceleration_filter:
  assumes "acc_history acc = Some (hx, hy, hz)"
  shows "update_acceleration acc x y z =
           handle_level
             (handle_hits
                (acc\<lparr>acc_value := Some (x, y, z),
                     acc_history := Some (hx * 0.95 + x * (1 - 0.95),
                                          hy * 0.95 + y * (1 - 0.95),
                                          hz * 0.95 + z * (1 - 0.95))\<rparr>)
                (x - hx) (y - hy) (z - hz))
             x y z \<and>
         acc_history (state_of (update_acceleration acc x y z)) =
           Some (hx * 0.95 + x * (1 - 0.95), hy * 0.95 + y * (1 - 0.95),
                 hz * 0.95 + z * (1 - 0.95))"
  using assms
  by (simp add: update_acceleration_history)
     (simp add: update_acceleration_def filter_sample_def)


lemma length_zero_iff:
  "calculate_vector_length x y z = 0 \<longleftrightarrow> x = 0 \<and> y = 0 \<and> z = 0"
proof -
  have "x * x + y * y + z * z = 0 \<longleftrightarrow> x = 0 \<and> y = 0 \<and> z = 0"
    by (smt (verit) mult_eq_0_iff zero_le_square add_nonneg_eq_0_iff add_nonneg_nonneg)
  moreover have "0 \<le> x * x + y * y + z * z" by simp
  ultimately show ?thesis
    by (simp add: calculate_vector_length_def)
qed








theorem update_acceleration_filter_witness:
  "acc_history acc_settled = Some (0, 0, 1) \<and>
   acc_history (state_of (update_acceleration acc_settled 0 0 2)) = Some (0, 0, 21 / 20)"
proof -
  have h: "acc_history acc_settled = Some (0, 0, 1)"
    by (simp add: acc_settled_def)
  note r = update_acceleration_filter [OF h, of 0 0 2, THEN conjunct2]
  show ?thesis using h r by simp
qed

section \<open>Switch controller\<close>

lemma dict_del_keys: "dict_keys (dict_del d k) = dict_keys d - {k}"
  by (auto simp: dict_keys_def dict_del_def)

lemma dict_del_subset: "set (dict_del d k) \<subseteq> set d"
  by (auto simp: dict_del_def)

lemma dict_del_twice: "dict_del (dict_del d k) k = dict_del d k"
  by (simp add: dict_del_def)

lemma dict_append_keys: "dict_keys (dict_append d k x) = insert k (dict_keys d)"
  by (induction d k x rule: dict_append.induct) (auto simp: dict_keys_def)


lemma sweep_items_result:
  "sweep_items opp k v d = Inr d' \<Longrightarrow>
     d' = (if \<exists>item\<in>set v. switch_action item = opp then dict_del d k else d)"
proof (induction v arbitrary: d)
  case Nil
  then show ?case by simp
next
  case (Cons item v)
  show ?case
  proof (cases "switch_action item = opp")
    case True
    with Cons.prems have "sweep_items opp k v (dict_del d k) = Inr d'"
      by (simp split: if_splits)
    from Cons.IH [OF this] True show ?thesis
      by (simp add: dict_del_twice)
  next
    case False
    with Cons.prems have "sweep_items opp k v d = Inr d'" by simp
    from Cons.IH [OF this] False show ?thesis by simp
  qed
qed

lemma sweep_items_removes:
  "sweep_items opp k v d = Inr d' \<Longrightarrow> set d' \<subseteq> set d \<and>
     ((\<exists>item\<in>set v. switch_action item = opp) \<longrightarrow> k \<notin> dict_keys d')"
  using sweep_items_result [of opp k v d d'] dict_del_subset [of d k]
  by (auto simp: dict_del_keys)

lemma sweep_subset:
  "sweep opp snapshot d = Inr d' \<Longrightarrow> set d' \<subseteq> set d"
proof (induction snapshot arbitrary: d)
  case Nil
  then show ?case by simp
next
  case (Cons kv snapshot)
  obtain k v where kv: "kv = (k, v)" by (cases kv)
  from Cons.prems kv obtain d1 where
    d1: "sweep_items opp k v d = Inr d1" and rest: "sweep opp snapshot d1 = Inr d'"
    by (auto split: sum.splits)
  from Cons.IH [OF rest] sweep_items_removes [OF d1] show ?case by auto
qed

lemma dict_keys_mono: "set d' \<subseteq> set d \<Longrightarrow> dict_keys d' \<subseteq> dict_keys d"
  by (auto simp: dict_keys_def)


lemma run_entries_frame:
  "switches (state_of (run_entries fails act entries sc)) = switches sc \<and>
   Timing_tick (state_of (run_entries fails act entries sc)) = Timing_tick sc \<and>
   registered_switches (state_of (run_entries fails act entries sc)) = registered_switches sc \<and>
   machine_switches (state_of (run_entries fails act entries sc)) = machine_switches sc"
  by (induction entries arbitrary: sc) (simp_all add: state_of_def)


lemma timed_keys_future_iff:
  "timed_keys_future sc \<longleftrightarrow> (\<forall>k\<in>dict_keys (active_timed_switches sc). Timing_tick sc < k)"
  by (auto simp: timed_keys_future_def list_all_iff dict_keys_def)

lemma run_entries_future:
  "run_entries fails act entries sc = Inr sc' \<Longrightarrow> timed_keys_future sc \<Longrightarrow>
     list_all (\<lambda>entry. 0 \<le> handler_ticks entry) entries \<Longrightarrow> timed_keys_future sc'"
proof (induction entries arbitrary: sc)
  case Nil
  then show ?case by simp
next
  case (Cons entry entries)
  show ?case
  proof (cases "handler_ticks entry \<noteq> 0")
    case True
    let ?sc1 = "sc\<lparr>active_timed_switches :=
                dict_append (active_timed_switches sc)
                  (Timing_tick sc + handler_ticks entry)
                  \<lparr>switch_action = act, pending_callback = handler_callback entry\<rparr>\<rparr>"
    from True Cons.prems(1) have run: "run_entries fails act entries ?sc1 = Inr sc'" by simp
    from True Cons.prems(3) have "0 < handler_ticks entry" by simp
    with Cons.prems(2) have "timed_keys_future ?sc1"
      by (simp add: timed_keys_future_iff dict_append_keys)
    from Cons.IH [OF run this] Cons.prems(3) show ?thesis by simp
  next
    case False
    with Cons.prems(1) have
      run: "run_entries fails act entries (sc\<lparr>calls := calls sc @ [handler_callback entry]\<rparr>) = Inr sc'"
      by (simp split: if_splits)
    from Cons.prems(2) have "timed_keys_future (sc\<lparr>calls := calls sc @ [handler_callback entry]\<rparr>)"
      by (simp add: timed_keys_future_def)
    from Cons.IH [OF run this] Cons.prems(3) show ?thesis by simp
  qed
qed


lemma post_switch_events_frame:
  "switches (state_of (post_switch_events sc name st)) = switches sc \<and>
   Timing_tick (state_of (post_switch_events sc name st)) = Timing_tick sc \<and>
   registered_switches (state_of (post_switch_events sc name st)) = registered_switches sc \<and>
   active_timed_switches (state_of (post_switch_events sc name st)) = active_timed_switches sc"
  by (simp add: post_switch_events_def state_of_def split: option.splits)

lemma state_of_Inr: "r = Inr s \<Longrightarrow> state_of r = s"
  by (simp add: state_of_def)

text \<open>The steps of a call of process_switch that returns.\<close>

lemma process_switch_returns:
  assumes "process_switch fails sc name0 state0 logical num obj = Inr sc'"
  obtains name sw sc2 d where
    "resolve_name sc name0 num obj = Some name"
    "find_switch (machine_switches sc) name = Some sw"
    "(case registered_switches sc
             (action_key name (if sw_type sw = ''NC'' \<and> \<not> logical then state0 XOR 1 else state0)) of
        None \<Rightarrow> Inr (set_state sc name (if sw_type sw = ''NC'' \<and> \<not> logical then state0 XOR 1 else state0))
      | Some entries \<Rightarrow>
          run_entries fails
            (action_key name (if sw_type sw = ''NC'' \<and> \<not> logical then state0 XOR 1 else state0))
            entries
            (set_state sc name (if sw_type sw = ''NC'' \<and> \<not> logical then state0 XOR 1 else state0)))
       = Inr sc2"
    "sweep (action_key name ((if sw_type sw = ''NC'' \<and> \<not> logical then state0 XOR 1 else state0) XOR 1))
       (active_timed_switches sc2) (active_timed_switches sc2) = Inr d"
    "post_switch_events (sc2\<lparr>active_timed_switches := d\<rparr>) name
       (if sw_type sw = ''NC'' \<and> \<not> logical then state0 XOR 1 else state0) = Inr sc'"
  using assms
  by (auto simp: process_switch_def Let_def set_state_def
           split: option.splits sum.splits prod.splits)

lemma run_entries_frame_cases:
  "run_entries fails act entries sc = Inr s \<Longrightarrow>
     switches s = switches sc \<and> Timing_tick s = Timing_tick sc \<and>
     registered_switches s = registered_switches sc"
  "run_entries fails act entries sc = Inl (e, s) \<Longrightarrow>
     switches s = switches sc \<and> Timing_tick s = Timing_tick sc \<and>
     registered_switches s = registered_switches sc"
  using run_entries_frame [of fails act entries sc]
  by (simp_all add: state_of_def)

lemma post_switch_events_frame_cases:
  "post_switch_events sc name st = Inr s \<Longrightarrow>
     switches s = switches sc \<and> Timing_tick s = Timing_tick sc \<and>
     registered_switches s = registered_switches sc \<and>
     active_timed_switches s = active_timed_switches sc"
  "post_switch_events sc name st = Inl (e, s) \<Longrightarrow>
     switches s = switches sc \<and> Timing_tick s = Timing_tick sc \<and>
     registered_switches s = registered_switches sc \<and>
     active_timed_switches s = active_timed_switches sc"
  using post_switch_events_frame [of sc name st]
  by (simp_all add: state_of_def)

lemma process_switch_sets_state:
  assumes "resolve_name sc name0 num obj = Some name"
    and "find_switch (machine_switches sc) name = Some sw"
  shows "switches (state_of (process_switch fails sc name0 state0 logical num obj)) =
           (switches sc)(name \<mapsto>
              \<lparr>entry_state = (if sw_type sw = ''NC'' \<and> \<not> logical then state0 XOR 1 else state0),
               entry_time = Timing_tick sc\<rparr>) \<and>
         Timing_tick (state_of (process_switch fails sc name0 state0 logical num obj)) =
           Timing_tick sc"
proof -
  let ?st = "if sw_type sw = ''NC'' \<and> \<not> logical then state0 XOR 1 else state0"
  let ?sc1 = "set_state sc name ?st"
  let ?key = "action_key name ?st"
  let ?P = "\<lambda>s. switches s = switches ?sc1 \<and> Timing_tick s = Timing_tick ?sc1"
  define r1 where "r1 = (case registered_switches ?sc1 ?key of
                           None \<Rightarrow> Inr ?sc1
                         | Some entries \<Rightarrow> run_entries fails ?key entries ?sc1)"
  have r1: "?P (state_of r1)"
    unfolding r1_def
    by (cases "registered_switches ?sc1 ?key")
       (simp_all add: state_of_def run_entries_frame [unfolded state_of_def])
  have ps: "process_switch fails sc name0 state0 logical num obj =
     (case r1 of
        Inl err \<Rightarrow> Inl err
      | Inr sc2 \<Rightarrow>
          (case sweep (action_key name (?st XOR 1))
                  (active_timed_switches sc2) (active_timed_switches sc2) of
             Inl (e, d) \<Rightarrow> Inl (e, sc2\<lparr>active_timed_switches := d\<rparr>)
           | Inr d \<Rightarrow> post_switch_events (sc2\<lparr>active_timed_switches := d\<rparr>) name ?st))"
    using assms by (simp add: process_switch_def r1_def Let_def)
  have "?P (state_of (process_switch fails sc name0 state0 logical num obj))"
  proof (cases r1)
    case (Inl err)
    with r1 ps show ?thesis by (simp add: state_of_def)
  next
    case (Inr sc2)
    with r1 have sc2: "?P sc2" by (simp add: state_of_def)
    show ?thesis
    proof (cases "sweep (action_key name (?st XOR 1))
                  (active_timed_switches sc2) (active_timed_switches sc2)")
      case (Inl ed)
      with Inr ps sc2 show ?thesis by (cases ed) (simp add: state_of_def)
    next
      case (Inr d)
      with \<open>r1 = Inr sc2\<close> ps sc2
        post_switch_events_frame [of "sc2\<lparr>active_timed_switches := d\<rparr>" name ?st]
      show ?thesis by simp
    qed
  qed
  then show ?thesis by (simp add: set_state_def)
qed

text \<open>
  C3, amended: for every switch name of the machine and every state \<open>s\<close>,
  immediately after \<open>process_switch(name, s)\<close> with \<open>logical\<close> false, queried
  on the same tick, \<open>ticks_since_change(name)\<close> is 0 and \<open>is_state(name, s')\<close>
  is true, where \<open>s'\<close> is \<open>s\<close> for a switch that is not of type NC and the
  inverted state \<open>s ^ 1\<close> for a switch of type NC. This holds also when the call
  is left by an exception after the state has been stored.
\<close>

theorem process_switch_is_state:
  assumes "find_switch (machine_switches sc) name = Some sw"
  shows "is_state (state_of (process_switch fails sc (Some name) s False None None)) name
           (if sw_type sw = ''NC'' then s XOR 1 else s) 0 = Inr True \<and>
         ticks_since_change (state_of (process_switch fails sc (Some name) s False None None))
           name = Inr 0"
proof -
  have "resolve_name sc (Some name) None None = Some name"
    by (simp add: resolve_name_def)
  from process_switch_sets_state [OF this assms, of fails s False]
  show ?thesis
    by (simp add: is_state_def ticks_since_change_def)
qed

text \<open>
  C3, as stated, fails for switches of type NC: after
  \<open>process_switch("N", 1)\<close> on the NC switch N, \<open>is_state("N", 1)\<close> is false
  and \<open>is_state("N", 0)\<close> is true.
\<close>

theorem is_state_after_NC_report:
  "is_state (state_of (process_switch no_failure sc_demo (Some ''N'') 1 False None None))
     ''N'' 1 0 = Inr False \<and>
   is_state (state_of (process_switch no_failure sc_demo (Some ''N'') 1 False None None))
     ''N'' 0 0 = Inr True \<and>
   \<not> isl (process_switch no_failure sc_demo (Some ''N'') 1 False None None)"
  by (simp add: process_switch_def resolve_name_def find_switch_def sc_demo_def
        SwitchController_init_def switch_S_def switch_N_def set_state_def action_key_def
        post_switch_events_def is_state_def ticks_since_change_def state_of_def)

theorem process_switch_is_state_witness:
  "find_switch (machine_switches sc_demo) ''N'' = Some switch_N \<and>
   is_state (state_of (process_switch no_failure sc_demo (Some ''N'') 1 False None None))
     ''N'' 0 0 = Inr True \<and>
   ticks_since_change (state_of (process_switch no_failure sc_demo (Some ''N'') 1 False None None))
     ''N'' = Inr 0 \<and>
   find_switch (machine_switches sc_demo) ''S'' = Some switch_S \<and>
   is_state (state_of (process_switch no_failure sc_demo (Some ''S'') 1 False None None))
     ''S'' 1 0 = Inr True"
proof -
  have n: "find_switch (machine_switches sc_demo) ''N'' = Some switch_N"
    by (simp add: find_switch_def sc_demo_def SwitchController_init_def switch_S_def switch_N_def)
  have s: "find_switch (machine_switches sc_demo) ''S'' = Some switch_S"
    by (simp add: find_switch_def sc_demo_def SwitchController_init_def switch_S_def switch_N_def)
  have tn: "sw_type switch_N = ''NC''" and ts: "sw_type switch_S \<noteq> ''NC''"
    by (simp_all add: switch_N_def switch_S_def)
  show ?thesis
    using n s process_switch_is_state [OF n, of no_failure 1] process_switch_is_state [OF s, of no_failure 1] tn ts
    by simp
qed

lemmas demo_defs = sc_demo_def SwitchController_init_def switch_S_def switch_N_def
  sc_registered_def sc_both_def sc_negative_def hold_S_def hold_N_def
  add_switch_handler_def action_key_def str_int_def str_nat.simps no_failure_def

lemmas call_defs = process_switch_def resolve_name_def find_switch_def set_state_def
  post_switch_events_def dict_keys_def dict_del_def and_then_def Let_def


lemma sc_both_reached:
  "and_then (process_switch no_failure sc_registered (Some ''S'') 1 False None None)
     (\<lambda>sc. process_switch no_failure sc (Some ''N'') 0 False None None) = Inr sc_both"
  by (simp add: demo_defs call_defs)






lemma tick_loop_result:
  "tick_loop fails snapshot sc = Inr sc' \<Longrightarrow>
     Timing_tick sc' = Timing_tick sc \<and>
     registered_switches sc' = registered_switches sc \<and>
     set (active_timed_switches sc') \<subseteq> set (active_timed_switches sc) \<and>
     (\<forall>k\<in>dict_keys snapshot. k \<le> Timing_tick sc \<longrightarrow> k \<notin> dict_keys (active_timed_switches sc'))"
proof (induction snapshot arbitrary: sc)
  case Nil
  then show ?case by (simp add: dict_keys_def)
next
  case (Cons kv snapshot)
  obtain k v where kv: "kv = (k, v)" by (cases kv)
  show ?case
  proof (cases "k \<le> Timing_tick sc")
    case True
    with Cons.prems kv obtain trace where
      "run_callbacks fails v (calls sc) = Inr trace" and
      present: "k \<in> dict_keys (active_timed_switches sc)" and
      rest: "tick_loop fails snapshot
               (sc\<lparr>calls := trace,
                   active_timed_switches := dict_del (active_timed_switches sc) k\<rparr>) = Inr sc'"
      by (auto split: sum.splits if_splits)
    from Cons.IH [OF rest] have
      ih: "Timing_tick sc' = Timing_tick sc"
        "registered_switches sc' = registered_switches sc"
        "set (active_timed_switches sc') \<subseteq> set (dict_del (active_timed_switches sc) k)"
        "\<forall>j\<in>dict_keys snapshot. j \<le> Timing_tick sc \<longrightarrow> j \<notin> dict_keys (active_timed_switches sc')"
      by simp_all
    from ih(3) have "dict_keys (active_timed_switches sc') \<subseteq> dict_keys (active_timed_switches sc) - {k}"
      using dict_keys_mono [OF ih(3)] by (simp add: dict_del_keys)
    then have "k \<notin> dict_keys (active_timed_switches sc')" by auto
    with ih dict_del_subset [of "active_timed_switches sc" k] kv show ?thesis
      by (auto simp: dict_keys_def)
  next
    case False
    with Cons.prems kv have rest: "tick_loop fails snapshot sc = Inr sc'" by simp
    from Cons.IH [OF rest] False kv show ?thesis by (auto simp: dict_keys_def)
  qed
qed

lemma SwitchController_tick_future:
  assumes "SwitchController_tick fails sc = Inr sc'"
  shows "timed_keys_future sc' \<and> Timing_tick sc' = Timing_tick sc \<and>
         registered_switches sc' = registered_switches sc"
proof -
  from assms have "tick_loop fails (active_timed_switches sc) sc = Inr sc'"
    by (simp add: SwitchController_tick_def)
  from tick_loop_result [OF this] have
    r: "Timing_tick sc' = Timing_tick sc" "registered_switches sc' = registered_switches sc"
      "set (active_timed_switches sc') \<subseteq> set (active_timed_switches sc)"
      "\<forall>k\<in>dict_keys (active_timed_switches sc).
          k \<le> Timing_tick sc \<longrightarrow> k \<notin> dict_keys (active_timed_switches sc')"
    by simp_all
  have "\<forall>k\<in>dict_keys (active_timed_switches sc'). Timing_tick sc' < k"
  proof
    fix k assume k: "k \<in> dict_keys (active_timed_switches sc')"
    with dict_keys_mono [OF r(3)] have "k \<in> dict_keys (active_timed_switches sc)" by auto
    with r(4) k have "\<not> k \<le> Timing_tick sc" by auto
    with r(1) show "Timing_tick sc' < k" by simp
  qed
  with r show ?thesis by (simp add: timed_keys_future_iff)
qed

lemma process_switch_future:
  assumes ret: "process_switch fails sc name0 state0 logical num obj = Inr sc'"
    and inv: "timed_keys_future sc" and dwell: "dwell_nonneg sc"
  shows "timed_keys_future sc' \<and> dwell_nonneg sc'"
proof -
  from ret obtain name sw sc2 d where
    "resolve_name sc name0 num obj = Some name" and
    "find_switch (machine_switches sc) name = Some sw" and
    r1: "(case registered_switches sc
             (action_key name (if sw_type sw = ''NC'' \<and> \<not> logical then state0 XOR 1 else state0)) of
        None \<Rightarrow> Inr (set_state sc name (if sw_type sw = ''NC'' \<and> \<not> logical then state0 XOR 1 else state0))
      | Some entries \<Rightarrow>
          run_entries fails
            (action_key name (if sw_type sw = ''NC'' \<and> \<not> logical then state0 XOR 1 else state0))
            entries
            (set_state sc name (if sw_type sw = ''NC'' \<and> \<not> logical then state0 XOR 1 else state0)))
       = Inr sc2" and
    sw2: "sweep (action_key name ((if sw_type sw = ''NC'' \<and> \<not> logical then state0 XOR 1 else state0) XOR 1))
       (active_timed_switches sc2) (active_timed_switches sc2) = Inr d" and
    post: "post_switch_events (sc2\<lparr>active_timed_switches := d\<rparr>) name
       (if sw_type sw = ''NC'' \<and> \<not> logical then state0 XOR 1 else state0) = Inr sc'"
    by (rule process_switch_returns)
  let ?st = "if sw_type sw = ''NC'' \<and> \<not> logical then state0 XOR 1 else state0"
  from inv have inv1: "timed_keys_future (set_state sc name ?st)"
    by (simp add: timed_keys_future_def set_state_def)
  have sc2: "timed_keys_future sc2 \<and> Timing_tick sc2 = Timing_tick sc \<and>
             registered_switches sc2 = registered_switches sc"
  proof (cases "registered_switches sc (action_key name ?st)")
    case None
    with r1 inv1 show ?thesis by (auto simp: set_state_def)
  next
    case (Some entries)
    with r1 have run: "run_entries fails (action_key name ?st) entries (set_state sc name ?st) = Inr sc2"
      by simp
    from dwell Some have "list_all (\<lambda>entry. 0 \<le> handler_ticks entry) entries"
      by (simp add: dwell_nonneg_def)
    from run_entries_future [OF run inv1 this] run_entries_frame_cases(1) [OF run]
    show ?thesis by (simp add: set_state_def)
  qed
  from sweep_subset [OF sw2] have "dict_keys d \<subseteq> dict_keys (active_timed_switches sc2)"
    by (rule dict_keys_mono)
  with sc2 post_switch_events_frame_cases(1) [OF post]
  have "timed_keys_future sc'" "registered_switches sc' = registered_switches sc"
    by (auto simp: timed_keys_future_iff)
  with dwell show ?thesis by (simp add: dwell_nonneg_def)
qed

lemma add_switch_handler_future:
  "timed_keys_future (add_switch_handler sc name cb st ticks) = timed_keys_future sc"
  by (simp add: add_switch_handler_def timed_keys_future_def Let_def)

lemma add_switch_handler_dwell:
  "dwell_nonneg sc \<Longrightarrow> 0 \<le> ticks \<Longrightarrow> dwell_nonneg (add_switch_handler sc name cb st ticks)"
  by (auto simp: add_switch_handler_def dwell_nonneg_def Let_def split: option.splits)

lemma machine_tick_future:
  assumes "machine_tick fails sc = Inr sc'"
  shows "timed_keys_future sc' \<and> Timing_tick sc' = Timing_tick sc + 1 \<and>
         registered_switches sc' = registered_switches sc"
  using SwitchController_tick_future [of fails "sc\<lparr>Timing_tick := Timing_tick sc + 1\<rparr>" sc'] assms
  by (simp add: machine_tick_def)

text \<open>
  Each public operation that returns keeps the keys after the current tick,
  when they were so before and no registration has negative ticks.
\<close>

lemma timed_keys_future_preserved:
  "timed_keys_future (SwitchController_init sws) \<and>
   dwell_nonneg (SwitchController_init sws) \<and>
   (timed_keys_future sc \<and> dwell_nonneg sc \<and>
    process_switch fails sc name0 state0 logical num obj = Inr sc1 \<longrightarrow>
      timed_keys_future sc1 \<and> dwell_nonneg sc1) \<and>
   (timed_keys_future sc \<and> dwell_nonneg sc \<and> 0 \<le> ticks \<longrightarrow>
      timed_keys_future (add_switch_handler sc name cb st ticks) \<and>
      dwell_nonneg (add_switch_handler sc name cb st ticks)) \<and>
   (dwell_nonneg sc \<and> machine_tick fails sc = Inr sc2 \<longrightarrow>
      timed_keys_future sc2 \<and> dwell_nonneg sc2) \<and>
   (dwell_nonneg sc \<and> SwitchController_tick fails sc = Inr sc3 \<longrightarrow>
      timed_keys_future sc3 \<and> dwell_nonneg sc3)"
proof (intro conjI impI)
  show "timed_keys_future (SwitchController_init sws)"
    by (simp add: timed_keys_future_def SwitchController_init_def)
  show "dwell_nonneg (SwitchController_init sws)"
    by (simp add: dwell_nonneg_def SwitchController_init_def)
next
  assume a: "timed_keys_future sc \<and> dwell_nonneg sc \<and>
    process_switch fails sc name0 state0 logical num obj = Inr sc1"
  then have "timed_keys_future sc1 \<and> dwell_nonneg sc1"
    using process_switch_future [of fails sc name0 state0 logical num obj sc1] by simp
  then show "timed_keys_future sc1" "dwell_nonneg sc1" by simp_all
next
  assume a: "timed_keys_future sc \<and> dwell_nonneg sc \<and> 0 \<le> ticks"
  then show "timed_keys_future (add_switch_handler sc name cb st ticks)"
    by (simp add: add_switch_handler_future)
  from a show "dwell_nonneg (add_switch_handler sc name cb st ticks)"
    by (simp add: add_switch_handler_dwell)
next
  assume a: "dwell_nonneg sc \<and> machine_tick fails sc = Inr sc2"
  with machine_tick_future [of fails sc sc2]
  show "timed_keys_future sc2" "dwell_nonneg sc2"
    by (simp_all add: dwell_nonneg_def)
next
  assume a: "dwell_nonneg sc \<and> SwitchController_tick fails sc = Inr sc3"
  with SwitchController_tick_future [of fails sc sc3]
  show "timed_keys_future sc3" "dwell_nonneg sc3"
    by (simp_all add: dwell_nonneg_def)
qed

lemma press_S:
  "process_switch no_failure sc_registered (Some ''S'') 1 False None None =
     Inr (sc_registered\<lparr>active_timed_switches := [(5, [hold_S])],
            switches := [''S'' \<mapsto> \<lparr>entry_state = 1, entry_time = 0\<rparr>],
            posted := [''sw_left_flipper'']\<rparr>)"
  by (simp add: demo_defs call_defs)









section \<open>Switch controller: delayed handlers\<close>

lemma run_callbacks_all_return:
  "\<forall>c. \<not> fails c \<Longrightarrow> run_callbacks fails v tr = Inr (tr @ map pending_callback v)"
  by (induction v arbitrary: tr) simp_all

lemma dict_del_filter:
  "filter P (dict_del d k) = filter (\<lambda>kv. fst kv \<noteq> k \<and> P kv) d"
  by (simp add: dict_del_def conj_commute)

text \<open>
  When no callback raises and the keys of the snapshot are distinct and present,
  the loop of the hook returns, having fired the buckets that are due, in
  order, and having deleted them.
\<close>

lemma tick_loop_closed:
  assumes "\<forall>c. \<not> fails c" and "distinct (map fst snapshot)"
    and "fst ` set snapshot \<subseteq> dict_keys (active_timed_switches sc)"
  shows "tick_loop fails snapshot sc =
           Inr (sc\<lparr>calls := calls sc @
                    concat (map (\<lambda>kv. map pending_callback (snd kv))
                              (filter (\<lambda>kv. fst kv \<le> Timing_tick sc) snapshot)),
                   active_timed_switches :=
                     filter (\<lambda>kv. \<not> (fst kv \<in> fst ` set snapshot \<and> fst kv \<le> Timing_tick sc))
                       (active_timed_switches sc)\<rparr>)"
  using assms(2,3)
proof (induction snapshot arbitrary: sc)
  case Nil
  then show ?case by simp
next
  case (Cons kv snapshot)
  obtain k v where kv: "kv = (k, v)" by (cases kv)
  from Cons.prems kv have dist: "distinct (map fst snapshot)" and knew: "k \<notin> fst ` set snapshot"
    and kin: "k \<in> dict_keys (active_timed_switches sc)"
    and sub: "fst ` set snapshot \<subseteq> dict_keys (active_timed_switches sc)"
    by auto
  show ?case
  proof (cases "k \<le> Timing_tick sc")
    case True
    let ?sc1 = "sc\<lparr>calls := calls sc @ map pending_callback v,
                   active_timed_switches := dict_del (active_timed_switches sc) k\<rparr>"
    from sub knew have sub1: "fst ` set snapshot \<subseteq> dict_keys (active_timed_switches ?sc1)"
      by (auto simp: dict_del_keys)
    have step: "tick_loop fails (kv # snapshot) sc = tick_loop fails snapshot ?sc1"
      using True kin kv assms(1) by (simp add: run_callbacks_all_return)
    have flt: "filter (\<lambda>kv. \<not> (fst kv \<in> fst ` set snapshot \<and> fst kv \<le> Timing_tick sc))
                 (dict_del (active_timed_switches sc) k) =
               filter (\<lambda>kv'. \<not> (fst kv' \<in> fst ` set (kv # snapshot) \<and> fst kv' \<le> Timing_tick sc))
                 (active_timed_switches sc)"
      unfolding dict_del_filter using True kv
      by (intro filter_cong) auto
    show ?thesis
      unfolding step Cons.IH [OF dist sub1]
      using True kv flt by simp
  next
    case False
    have step: "tick_loop fails (kv # snapshot) sc = tick_loop fails snapshot sc"
      using False kv by simp
    have flt: "filter (\<lambda>kv. \<not> (fst kv \<in> fst ` set snapshot \<and> fst kv \<le> Timing_tick sc))
                 (active_timed_switches sc) =
               filter (\<lambda>kv'. \<not> (fst kv' \<in> fst ` set (kv # snapshot) \<and> fst kv' \<le> Timing_tick sc))
                 (active_timed_switches sc)"
      using False kv by (intro filter_cong) auto
    show ?thesis
      unfolding step Cons.IH [OF dist sub]
      using False kv flt by simp
  qed
qed

lemma machine_tick_closed:
  assumes "\<forall>c. \<not> fails c" and "distinct (map fst (active_timed_switches sc))"
  shows "machine_tick fails sc =
           Inr (sc\<lparr>Timing_tick := Timing_tick sc + 1,
                   calls := calls sc @
                     concat (map (\<lambda>kv. map pending_callback (snd kv))
                               (filter (\<lambda>kv. fst kv \<le> Timing_tick sc + 1)
                                  (active_timed_switches sc))),
                   active_timed_switches :=
                     filter (\<lambda>kv. Timing_tick sc + 1 < fst kv) (active_timed_switches sc)\<rparr>)"
proof -
  let ?s = "sc\<lparr>Timing_tick := Timing_tick sc + 1\<rparr>"
  have "filter (\<lambda>kv. \<not> (fst kv \<in> fst ` set (active_timed_switches sc) \<and> fst kv \<le> Timing_tick sc + 1))
          (active_timed_switches sc) =
        filter (\<lambda>kv. Timing_tick sc + 1 < fst kv) (active_timed_switches sc)"
    by (intro filter_cong) auto
  with tick_loop_closed [OF assms(1), of "active_timed_switches ?s" ?s] assms(2)
  show ?thesis
    by (simp add: machine_tick_def SwitchController_tick_def dict_keys_def)
qed

lemma fires_at_Nil [simp]: "fires_at [] k cb = 0"
  by (simp add: fires_at_def)

lemma fires_at_Cons:
  "fires_at (kv # d) k cb =
     (if fst kv = k then count_list (map pending_callback (snd kv)) cb else 0) + fires_at d k cb"
  by (simp add: fires_at_def)

lemma fires_at_dict_append:
  "fires_at (dict_append d k x) k' cb =
     fires_at d k' cb + (if k = k' \<and> pending_callback x = cb then 1 else 0)"
  by (induction d k x rule: dict_append.induct) (auto simp: fires_at_Cons)

lemma dict_append_distinct:
  "distinct (map fst d) \<Longrightarrow> distinct (map fst (dict_append d k x))"
proof (induction d k x rule: dict_append.induct)
  case (1 k x)
  then show ?case by simp
next
  case (2 k' v d k x)
  have "fst ` set (dict_append d k x) = insert k (fst ` set d)"
    using dict_append_keys [of d k x] by (simp add: dict_keys_def)
  with 2 show ?case by auto
qed

lemma fires_at_filter_keys:
  "fires_at (filter (\<lambda>kv. R (fst kv)) d) k cb = (if R k then fires_at d k cb else 0)"
  by (induction d) (auto simp: fires_at_Cons)

lemma count_list_concat:
  "count_list (concat xss) x = sum_list (map (\<lambda>xs. count_list xs x) xss)"
  by (induction xss) simp_all

lemma fired_count:
  assumes "\<forall>k. k \<noteq> K \<longrightarrow> fires_at d k cb = 0"
  shows "sum_list (map (\<lambda>kv. count_list (map pending_callback (snd kv)) cb)
                    (filter (\<lambda>kv. fst kv \<le> j) d)) =
         (if K \<le> j then fires_at d K cb else 0)"
  using assms
proof (induction d)
  case Nil
  then show ?case by simp
next
  case (Cons kv d)
  have rest: "\<forall>k. k \<noteq> K \<longrightarrow> fires_at d k cb = 0"
    using Cons.prems by (auto simp: fires_at_Cons)
  have here: "fst kv \<noteq> K \<longrightarrow> count_list (map pending_callback (snd kv)) cb = 0"
    using Cons.prems by (auto simp: fires_at_Cons)
  from Cons.IH [OF rest] here show ?case
    by (auto simp: fires_at_Cons)
qed

text \<open>The sweep that returns is a filter on the keys.\<close>

lemma sweep_closed:
  "sweep opp snapshot d = Inr d' \<Longrightarrow>
     d' = filter (\<lambda>kv. \<not> (\<exists>v. (fst kv, v) \<in> set snapshot \<and>
                              (\<exists>item\<in>set v. switch_action item = opp))) d"
proof (induction snapshot arbitrary: d)
  case Nil
  then show ?case by simp
next
  case (Cons kv snapshot)
  obtain k v where kv: "kv = (k, v)" by (cases kv)
  from Cons.prems kv obtain d1 where
    d1: "sweep_items opp k v d = Inr d1" and rest: "sweep opp snapshot d1 = Inr d'"
    by (auto split: sum.splits)
  note r = sweep_items_result [OF d1]
  show ?case
  proof (cases "\<exists>item\<in>set v. switch_action item = opp")
    case True
    with r have "d1 = dict_del d k" by simp
    with Cons.IH [OF rest] have
      "d' = filter (\<lambda>kv. fst kv \<noteq> k \<and> \<not> (\<exists>v. (fst kv, v) \<in> set snapshot \<and>
                              (\<exists>item\<in>set v. switch_action item = opp))) d"
      by (simp add: dict_del_filter)
    also have "\<dots> = filter (\<lambda>kv'. \<not> (\<exists>v. (fst kv', v) \<in> set (kv # snapshot) \<and>
                              (\<exists>item\<in>set v. switch_action item = opp))) d"
      using True kv by (intro filter_cong) auto
    finally show ?thesis .
  next
    case False
    with r have "d1 = d" by simp
    with Cons.IH [OF rest] have
      "d' = filter (\<lambda>kv. \<not> (\<exists>v. (fst kv, v) \<in> set snapshot \<and>
                              (\<exists>item\<in>set v. switch_action item = opp))) d"
      by simp
    also have "\<dots> = filter (\<lambda>kv'. \<not> (\<exists>v. (fst kv', v) \<in> set (kv # snapshot) \<and>
                              (\<exists>item\<in>set v. switch_action item = opp))) d"
      using False kv by (intro filter_cong) auto
    finally show ?thesis .
  qed
qed

text \<open>What the loop over the registrations leaves, when it returns.\<close>

lemma dict_append_items:
  "(k, v) \<in> set (dict_append d k' x) \<Longrightarrow> item \<in> set v \<Longrightarrow>
     item = x \<or> (\<exists>v0. (k, v0) \<in> set d \<and> item \<in> set v0)"
  by (induction d k' x rule: dict_append.induct) (auto split: if_splits)

lemma run_entries_effect:
  "run_entries fails act entries sc = Inr sc' \<Longrightarrow>
     Timing_tick sc' = Timing_tick sc \<and>
     (distinct (map fst (active_timed_switches sc)) \<longrightarrow>
        distinct (map fst (active_timed_switches sc'))) \<and>
     fires_at (active_timed_switches sc') k cb =
       fires_at (active_timed_switches sc) k cb +
       length (filter (\<lambda>e. handler_ticks e \<noteq> 0 \<and> handler_callback e = cb \<and>
                            Timing_tick sc + handler_ticks e = k) entries) \<and>
     count_list (calls sc') cb =
       count_list (calls sc) cb +
       length (filter (\<lambda>e. handler_ticks e = 0 \<and> handler_callback e = cb) entries) \<and>
     (\<forall>k v item. (k, v) \<in> set (active_timed_switches sc') \<and> item \<in> set v \<longrightarrow>
        switch_action item = act \<or>
        (\<exists>v0. (k, v0) \<in> set (active_timed_switches sc) \<and> item \<in> set v0))"
proof (induction entries arbitrary: sc)
  case Nil
  then show ?case by auto
next
  case (Cons entry entries)
  show ?case
  proof (cases "handler_ticks entry \<noteq> 0")
    case True
    let ?x = "\<lparr>switch_action = act, pending_callback = handler_callback entry\<rparr>"
    let ?sc1 = "sc\<lparr>active_timed_switches :=
                dict_append (active_timed_switches sc)
                  (Timing_tick sc + handler_ticks entry) ?x\<rparr>"
    from True Cons.prems have run: "run_entries fails act entries ?sc1 = Inr sc'" by simp
    note ih = Cons.IH [OF run]
    have items: "\<forall>k v item. (k, v) \<in> set (active_timed_switches ?sc1) \<and> item \<in> set v \<longrightarrow>
        switch_action item = act \<or>
        (\<exists>v0. (k, v0) \<in> set (active_timed_switches sc) \<and> item \<in> set v0)"
      using dict_append_items [of _ _ "active_timed_switches sc"
              "Timing_tick sc + handler_ticks entry" ?x]
      by fastforce
    from ih True items show ?thesis
      by (auto simp: fires_at_dict_append dict_append_distinct) blast+
  next
    case False
    let ?sc1 = "sc\<lparr>calls := calls sc @ [handler_callback entry]\<rparr>"
    from False Cons.prems have run: "run_entries fails act entries ?sc1 = Inr sc'"
      by (simp split: if_splits)
    from Cons.IH [OF run] False show ?thesis by auto
  qed
qed

lemma fires_at_fresh:
  "\<forall>kv\<in>set d. cb \<notin> pending_callback ` set (snd kv) \<Longrightarrow> fires_at d k cb = 0"
  by (induction d) (auto simp: fires_at_Cons)

lemma post_switch_events_calls:
  "post_switch_events sc name st = Inr s \<Longrightarrow> calls s = calls sc"
  by (auto simp: post_switch_events_def split: if_splits option.splits)

lemma and_then_assoc:
  "and_then (and_then r f) g = and_then r (\<lambda>s. and_then (f s) g)"
  by (simp add: and_then_def split: sum.splits)

lemma machine_ticks_snoc:
  "machine_ticks fails (Suc n) sc = and_then (machine_ticks fails n sc) (machine_tick fails)"
proof (induction n arbitrary: sc)
  case 0
  show ?case by (simp add: and_then_def split: sum.splits)
next
  case (Suc n)
  have "machine_ticks fails (Suc (Suc n)) sc =
          and_then (machine_tick fails sc) (machine_ticks fails (Suc n))"
    by simp
  also have "\<dots> = and_then (machine_tick fails sc)
                      (\<lambda>s. and_then (machine_ticks fails n s) (machine_tick fails))"
    using Suc.IH by presburger
  also have "\<dots> = and_then (and_then (machine_tick fails sc) (machine_ticks fails n))
                      (machine_tick fails)"
    by (simp add: and_then_assoc)
  finally show ?case by simp
qed

lemma machine_tick_effect:
  assumes "\<forall>c. \<not> fails c" and "distinct (map fst (active_timed_switches sc))"
    and "\<forall>k. k \<noteq> K \<longrightarrow> fires_at (active_timed_switches sc) k cb = 0"
  shows "\<exists>sc'. machine_tick fails sc = Inr sc' \<and>
           Timing_tick sc' = Timing_tick sc + 1 \<and>
           distinct (map fst (active_timed_switches sc')) \<and>
           (\<forall>k. fires_at (active_timed_switches sc') k cb =
                  (if Timing_tick sc + 1 < k then fires_at (active_timed_switches sc) k cb else 0)) \<and>
           count_list (calls sc') cb =
             count_list (calls sc) cb +
             (if K \<le> Timing_tick sc + 1 then fires_at (active_timed_switches sc) K cb else 0)"
proof -
  let ?d = "active_timed_switches sc"
  let ?sc' = "sc\<lparr>Timing_tick := Timing_tick sc + 1,
                   calls := calls sc @
                     concat (map (\<lambda>kv. map pending_callback (snd kv))
                               (filter (\<lambda>kv. fst kv \<le> Timing_tick sc + 1) ?d)),
                   active_timed_switches :=
                     filter (\<lambda>kv. Timing_tick sc + 1 < fst kv) ?d\<rparr>"
  have m: "machine_tick fails sc = Inr ?sc'"
    by (rule machine_tick_closed [OF assms(1,2)])
  have c: "count_list (concat (map (\<lambda>kv. map pending_callback (snd kv))
                               (filter (\<lambda>kv. fst kv \<le> Timing_tick sc + 1) ?d))) cb =
           (if K \<le> Timing_tick sc + 1 then fires_at ?d K cb else 0)"
    using fired_count [OF assms(3), of "Timing_tick sc + 1"]
    by (simp add: count_list_concat comp_def)
  have f: "\<forall>k. fires_at (filter (\<lambda>kv. Timing_tick sc + 1 < fst kv) ?d) k cb =
             (if Timing_tick sc + 1 < k then fires_at ?d k cb else 0)"
    using fires_at_filter_keys [of "\<lambda>k. Timing_tick sc + 1 < k" ?d _ cb] by simp
  show ?thesis
    using m c f assms(2) by (intro exI [of _ ?sc']) (simp add: distinct_map_filter)
qed

lemma machine_ticks_before:
  assumes "\<forall>c. \<not> fails c"
  shows "distinct (map fst (active_timed_switches sc)) \<Longrightarrow>
         \<forall>k. k \<noteq> K \<longrightarrow> fires_at (active_timed_switches sc) k cb = 0 \<Longrightarrow>
         Timing_tick sc + int n < K \<Longrightarrow>
         \<exists>sc'. machine_ticks fails n sc = Inr sc' \<and>
           Timing_tick sc' = Timing_tick sc + int n \<and>
           distinct (map fst (active_timed_switches sc')) \<and>
           (\<forall>k. k \<noteq> K \<longrightarrow> fires_at (active_timed_switches sc') k cb = 0) \<and>
           fires_at (active_timed_switches sc') K cb = fires_at (active_timed_switches sc) K cb \<and>
           count_list (calls sc') cb = count_list (calls sc) cb"
proof (induction n arbitrary: sc)
  case 0
  then show ?case by simp
next
  case (Suc n)
  from machine_tick_effect [OF assms Suc.prems(1,2)] obtain s1 where
    s1: "machine_tick fails sc = Inr s1" "Timing_tick s1 = Timing_tick sc + 1"
      "distinct (map fst (active_timed_switches s1))"
      "\<forall>k. fires_at (active_timed_switches s1) k cb =
                  (if Timing_tick sc + 1 < k then fires_at (active_timed_switches sc) k cb else 0)"
      "count_list (calls s1) cb =
             count_list (calls sc) cb +
             (if K \<le> Timing_tick sc + 1 then fires_at (active_timed_switches sc) K cb else 0)"
    by blast
  from Suc.prems(3) have lt: "Timing_tick sc + 1 < K" by simp
  from s1(4) Suc.prems(2) have others: "\<forall>k. k \<noteq> K \<longrightarrow> fires_at (active_timed_switches s1) k cb = 0"
    by simp
  from s1(2) Suc.prems(3) have "Timing_tick s1 + int n < K" by simp
  from Suc.IH [OF s1(3) others this] obtain sc' where
    "machine_ticks fails n s1 = Inr sc'"
    "Timing_tick sc' = Timing_tick s1 + int n"
    "distinct (map fst (active_timed_switches sc'))"
    "\<forall>k. k \<noteq> K \<longrightarrow> fires_at (active_timed_switches sc') k cb = 0"
    "fires_at (active_timed_switches sc') K cb = fires_at (active_timed_switches s1) K cb"
    "count_list (calls sc') cb = count_list (calls s1) cb"
    by blast
  with s1 lt show ?case
    by (intro exI [of _ sc']) (simp add: and_then_def)
qed

lemma str_nat_unfold:
  "n < 10 \<Longrightarrow> str_nat n = [''0123456789'' ! n]"
  "\<not> n < 10 \<Longrightarrow> str_nat n = str_nat (n div 10) @ [''0123456789'' ! (n mod 10)]"
  by (simp_all add: str_nat.simps [of n])

lemma str_nat_nonempty: "str_nat n \<noteq> []"
  by (cases "n < 10") (simp_all add: str_nat_unfold)

lemma digit_char_inj:
  "a < 10 \<Longrightarrow> b < 10 \<Longrightarrow> ''0123456789'' ! a = ''0123456789'' ! b \<Longrightarrow> a = b"
  using nth_eq_iff_index_eq [of "''0123456789''" a b] by simp

lemma digit_char_not_minus: "a < 10 \<Longrightarrow> ''0123456789'' ! a \<noteq> CHR ''-''"
proof -
  assume "a < 10"
  then have "''0123456789'' ! a \<in> set ''0123456789''"
    by (intro nth_mem) simp
  then show ?thesis by auto
qed

lemma str_nat_inj: "str_nat n = str_nat m \<Longrightarrow> n = m"
proof (induction n arbitrary: m rule: str_nat.induct)
  case (1 n)
  show ?case
  proof (cases "n < 10")
    case n: True
    show ?thesis
    proof (cases "m < 10")
      case True
      with n "1.prems" show ?thesis by (simp add: str_nat_unfold digit_char_inj)
    next
      case False
      with n "1.prems" str_nat_nonempty [of "m div 10"] show ?thesis
        by (simp add: str_nat_unfold)
    qed
  next
    case n: False
    show ?thesis
    proof (cases "m < 10")
      case True
      with n "1.prems" str_nat_nonempty [of "n div 10"] show ?thesis
        by (simp add: str_nat_unfold)
    next
      case False
      with n "1.prems" have
        eq: "str_nat (n div 10) = str_nat (m div 10)"
          "''0123456789'' ! (n mod 10) = ''0123456789'' ! (m mod 10)"
        by (simp_all add: str_nat_unfold)
      from "1.IH" [OF n eq(1)] have "n div 10 = m div 10" .
      moreover from eq(2) have "n mod 10 = m mod 10"
        by (intro digit_char_inj) simp_all
      ultimately show ?thesis by (metis div_mult_mod_eq)
    qed
  qed
qed

lemma str_nat_hd: "hd (str_nat n) \<noteq> CHR ''-''"
proof (induction n rule: str_nat.induct)
  case (1 n)
  show ?case
  proof (cases "n < 10")
    case True
    then show ?thesis by (simp add: str_nat_unfold digit_char_not_minus)
  next
    case False
    with "1.IH" str_nat_nonempty [of "n div 10"] show ?thesis
      by (simp add: str_nat_unfold)
  qed
qed

lemma str_int_inj: "str_int i = str_int j \<Longrightarrow> i = j"
proof -
  assume eq: "str_int i = str_int j"
  consider "i < 0" "j < 0" | "0 \<le> i" "0 \<le> j" | "i < 0" "0 \<le> j" | "0 \<le> i" "j < 0"
    by linarith
  then show "i = j"
  proof cases
    case 1
    with eq have "nat (- i) = nat (- j)" by (simp add: str_int_def str_nat_inj)
    with 1 show ?thesis by simp
  next
    case 2
    with eq have "nat i = nat j" by (simp add: str_int_def str_nat_inj)
    with 2 show ?thesis by simp
  next
    case 3
    with eq have "CHR ''-'' # str_nat (nat (- i)) = str_nat (nat j)"
      by (simp add: str_int_def)
    then have "hd (str_nat (nat j)) = CHR ''-''" by (metis list.sel(1))
    with str_nat_hd show ?thesis by blast
  next
    case 4
    with eq have "CHR ''-'' # str_nat (nat (- j)) = str_nat (nat i)"
      by (simp add: str_int_def)
    then have "hd (str_nat (nat i)) = CHR ''-''" by (metis list.sel(1))
    with str_nat_hd show ?thesis by blast
  qed
qed

lemma xor_one_differs: "(st :: int) XOR 1 \<noteq> st"
proof
  assume "st XOR 1 = st"
  then have "even (st XOR 1) = even st" by simp
  then show False by (simp add: even_xor_iff)
qed

lemma action_key_opposite: "action_key name st \<noteq> action_key name (st XOR 1)"
  using str_int_inj [of st "st XOR 1"] xor_one_differs [of st]
  by (auto simp: action_key_def)

lemma process_switch_queues_fire:
  assumes wf: "distinct (map fst (active_timed_switches sc))"
    and ret: "process_switch fails sc name0 state0 logical num obj = Inr sc1"
    and name: "resolve_name sc name0 num obj = Some name"
    and new: "switches sc1 name = Some e"
    and reg: "registered_switches sc (action_key name (entry_state e)) = Some (pre @ entry # post)"
    and cb: "handler_callback entry = cb"
    and d: "handler_ticks entry = d" "0 < d"
    and unique: "cb \<notin> handler_callback ` set (pre @ post)"
    and fresh: "\<forall>kv\<in>set (active_timed_switches sc). cb \<notin> pending_callback ` set (snd kv)"
    and clean: "\<forall>v item. (Timing_tick sc + d, v) \<in> set (active_timed_switches sc) \<and> item \<in> set v
                  \<longrightarrow> switch_action item \<noteq> action_key name (entry_state e XOR 1)"
  shows "Timing_tick sc1 = Timing_tick sc \<and>
         distinct (map fst (active_timed_switches sc1)) \<and>
         (\<forall>k. k \<noteq> Timing_tick sc + d \<longrightarrow> fires_at (active_timed_switches sc1) k cb = 0) \<and>
         fires_at (active_timed_switches sc1) (Timing_tick sc + d) cb = 1 \<and>
         count_list (calls sc1) cb = count_list (calls sc) cb"
proof -
  from ret obtain name' sw sc2 d' where
    name': "resolve_name sc name0 num obj = Some name'" and
    sw: "find_switch (machine_switches sc) name' = Some sw" and
    r1: "(case registered_switches sc
             (action_key name' (if sw_type sw = ''NC'' \<and> \<not> logical then state0 XOR 1 else state0)) of
        None \<Rightarrow> Inr (set_state sc name' (if sw_type sw = ''NC'' \<and> \<not> logical then state0 XOR 1 else state0))
      | Some entries \<Rightarrow>
          run_entries fails
            (action_key name' (if sw_type sw = ''NC'' \<and> \<not> logical then state0 XOR 1 else state0))
            entries
            (set_state sc name' (if sw_type sw = ''NC'' \<and> \<not> logical then state0 XOR 1 else state0)))
       = Inr sc2" and
    sw2: "sweep (action_key name' ((if sw_type sw = ''NC'' \<and> \<not> logical then state0 XOR 1 else state0) XOR 1))
       (active_timed_switches sc2) (active_timed_switches sc2) = Inr d'" and
    post: "post_switch_events (sc2\<lparr>active_timed_switches := d'\<rparr>) name'
       (if sw_type sw = ''NC'' \<and> \<not> logical then state0 XOR 1 else state0) = Inr sc1"
    by (rule process_switch_returns)
  let ?st = "if sw_type sw = ''NC'' \<and> \<not> logical then state0 XOR 1 else state0"
  let ?K = "Timing_tick sc + d"
  let ?key = "action_key name (entry_state e)"
  let ?opp = "action_key name (entry_state e XOR 1)"
  let ?sc0 = "set_state sc name (entry_state e)"
  from name name' have [simp]: "name' = name" by simp
  from process_switch_sets_state [OF name' sw, of fails state0 logical] ret new
  have st [simp]: "?st = entry_state e" by (auto simp: state_of_def)
  from r1 reg have run: "run_entries fails ?key (pre @ entry # post) ?sc0 = Inr sc2"
    by simp
  have sc0: "Timing_tick ?sc0 = Timing_tick sc" "calls ?sc0 = calls sc"
    "active_timed_switches ?sc0 = active_timed_switches sc"
    by (simp_all add: set_state_def)
  note eff = run_entries_effect [OF run, unfolded sc0]
  have others: "\<And>x. x \<in> set pre \<or> x \<in> set post \<Longrightarrow> handler_callback x \<noteq> cb"
    using unique by auto
  have queued: "\<And>k. length (filter (\<lambda>e. handler_ticks e \<noteq> 0 \<and> handler_callback e = cb \<and>
                            Timing_tick sc + handler_ticks e = k) (pre @ entry # post)) =
                  (if k = ?K then 1 else 0)"
    using others cb d by (auto simp: filter_empty_conv)
  have called: "length (filter (\<lambda>e. handler_ticks e = 0 \<and> handler_callback e = cb)
                  (pre @ entry # post)) = 0"
    using others cb d by (auto simp: filter_empty_conv)
  have tick2: "Timing_tick sc2 = Timing_tick sc" using eff [of 0 cb] by simp
  have dist2: "distinct (map fst (active_timed_switches sc2))" using eff [of 0 cb] wf by simp
  have fires2: "\<And>k. fires_at (active_timed_switches sc2) k cb = (if k = ?K then 1 else 0)"
  proof -
    fix k
    from eff [of k cb] have "fires_at (active_timed_switches sc2) k cb =
       fires_at (active_timed_switches sc) k cb +
       length (filter (\<lambda>e. handler_ticks e \<noteq> 0 \<and> handler_callback e = cb \<and>
                            Timing_tick sc + handler_ticks e = k) (pre @ entry # post))"
      by simp
    with fires_at_fresh [OF fresh, of k] queued [of k]
    show "fires_at (active_timed_switches sc2) k cb = (if k = ?K then 1 else 0)" by simp
  qed
  have calls2: "count_list (calls sc2) cb = count_list (calls sc) cb"
    using eff [of 0 cb] called by simp
  have items2: "\<And>k v item. (k, v) \<in> set (active_timed_switches sc2) \<Longrightarrow> item \<in> set v \<Longrightarrow>
        switch_action item = ?key \<or>
        (\<exists>v0. (k, v0) \<in> set (active_timed_switches sc) \<and> item \<in> set v0)"
    using eff [of 0 cb] by blast
  have keep: "\<not> (\<exists>v. (?K, v) \<in> set (active_timed_switches sc2) \<and>
                    (\<exists>item\<in>set v. switch_action item = ?opp))"
  proof
    assume "\<exists>v. (?K, v) \<in> set (active_timed_switches sc2) \<and>
                    (\<exists>item\<in>set v. switch_action item = ?opp)"
    then obtain v item where
      vi: "(?K, v) \<in> set (active_timed_switches sc2)" "item \<in> set v" "switch_action item = ?opp"
      by blast
    from items2 [OF vi(1,2)] vi(3) action_key_opposite [of name "entry_state e"] clean
    show False by auto
  qed
  let ?R = "\<lambda>k. \<not> (\<exists>v. (k, v) \<in> set (active_timed_switches sc2) \<and>
                    (\<exists>item\<in>set v. switch_action item = ?opp))"
  from sweep_closed [OF sw2] have d': "d' = filter (\<lambda>kv. ?R (fst kv)) (active_timed_switches sc2)"
    by simp
  have firesd: "\<And>k. fires_at d' k cb = (if k = ?K then 1 else 0)"
    unfolding d' fires_at_filter_keys [of ?R] using keep fires2 by auto
  have distd: "distinct (map fst d')" unfolding d' using dist2 by (simp add: distinct_map_filter)
  from post_switch_events_frame_cases(1) [OF post] post_switch_events_calls [OF post]
  have "active_timed_switches sc1 = d'" "Timing_tick sc1 = Timing_tick sc2" "calls sc1 = calls sc2"
    by simp_all
  with firesd distd tick2 calls2 show ?thesis by simp
qed

text \<open>
  The regular case of a delayed handler. No callback raises; the callback is
  registered once, for the key of the new state and with \<open>d > 0\<close> ticks, and
  is not pending; the bucket at \<open>t + d\<close> holds no fire for the opposite state
  of the switch. Then the call at tick \<open>t\<close> does not invoke the callback,
  the hooks of the ticks before \<open>t + d\<close> do not either, and the hook of tick
  \<open>t + d\<close> invokes it exactly once, when no report comes in between.
\<close>

theorem delayed_fire_in_kept_bucket:
  assumes nofail: "\<forall>c. \<not> fails c"
    and wf: "distinct (map fst (active_timed_switches sc))"
    and ret: "process_switch fails sc name0 state0 logical num obj = Inr sc1"
    and name: "resolve_name sc name0 num obj = Some name"
    and new: "switches sc1 name = Some e"
    and reg: "registered_switches sc (action_key name (entry_state e)) = Some (pre @ entry # post)"
    and cb: "handler_callback entry = cb"
    and d: "handler_ticks entry = d" "0 < d"
    and unique: "cb \<notin> handler_callback ` set (pre @ post)"
    and fresh: "\<forall>kv\<in>set (active_timed_switches sc). cb \<notin> pending_callback ` set (snd kv)"
    and clean: "\<forall>v item. (Timing_tick sc + d, v) \<in> set (active_timed_switches sc) \<and> item \<in> set v
                  \<longrightarrow> switch_action item \<noteq> action_key name (entry_state e XOR 1)"
  shows "count_list (calls sc1) cb = count_list (calls sc) cb \<and>
         (\<forall>n < nat d. \<exists>sc'. machine_ticks fails n sc1 = Inr sc' \<and>
              Timing_tick sc' = Timing_tick sc + int n \<and>
              count_list (calls sc') cb = count_list (calls sc) cb) \<and>
         (\<exists>sc'. machine_ticks fails (nat d) sc1 = Inr sc' \<and>
              Timing_tick sc' = Timing_tick sc + d \<and>
              count_list (calls sc') cb = count_list (calls sc) cb + 1)"
proof -
  let ?K = "Timing_tick sc + d"
  from process_switch_queues_fire [OF wf ret name new reg cb d unique fresh clean]
  have q: "Timing_tick sc1 = Timing_tick sc"
    "distinct (map fst (active_timed_switches sc1))"
    "\<forall>k. k \<noteq> ?K \<longrightarrow> fires_at (active_timed_switches sc1) k cb = 0"
    "fires_at (active_timed_switches sc1) ?K cb = 1"
    "count_list (calls sc1) cb = count_list (calls sc) cb"
    by simp_all
  have before: "\<exists>sc'. machine_ticks fails n sc1 = Inr sc' \<and>
           Timing_tick sc' = Timing_tick sc + int n \<and>
           distinct (map fst (active_timed_switches sc')) \<and>
           (\<forall>k. k \<noteq> ?K \<longrightarrow> fires_at (active_timed_switches sc') k cb = 0) \<and>
           fires_at (active_timed_switches sc') ?K cb = 1 \<and>
           count_list (calls sc') cb = count_list (calls sc) cb" if "n < nat d" for n
  proof -
    from that q(1) have "Timing_tick sc1 + int n < ?K" by simp
    from machine_ticks_before [OF nofail q(2,3) this] q show ?thesis by simp
  qed
  obtain m where m: "nat d = Suc m" using d(2) by (cases "nat d") simp_all
  then have "m < nat d" by simp
  from before [OF this] obtain s where
    s: "machine_ticks fails m sc1 = Inr s" "Timing_tick s = Timing_tick sc + int m"
      "distinct (map fst (active_timed_switches s))"
      "\<forall>k. k \<noteq> ?K \<longrightarrow> fires_at (active_timed_switches s) k cb = 0"
      "fires_at (active_timed_switches s) ?K cb = 1"
      "count_list (calls s) cb = count_list (calls sc) cb"
    by blast
  from machine_tick_effect [OF nofail s(3,4)] obtain s' where
    s': "machine_tick fails s = Inr s'" "Timing_tick s' = Timing_tick s + 1"
      "count_list (calls s') cb =
             count_list (calls s) cb +
             (if ?K \<le> Timing_tick s + 1 then fires_at (active_timed_switches s) ?K cb else 0)"
    by blast
  from m d(2) have dm: "d = int m + 1" by linarith
  have "machine_ticks fails (nat d) sc1 = Inr s'"
    unfolding m machine_ticks_snoc using s(1) s'(1) by (simp add: and_then_def)
  moreover have "Timing_tick s' = Timing_tick sc + d" using s'(2) s(2) dm by simp
  moreover have "count_list (calls s') cb = count_list (calls sc) cb + 1"
    using s'(3) s(2,5,6) dm by simp
  ultimately have last: "\<exists>sc'. machine_ticks fails (nat d) sc1 = Inr sc' \<and>
              Timing_tick sc' = Timing_tick sc + d \<and>
              count_list (calls sc') cb = count_list (calls sc) cb + 1"
    by blast
  from before have "\<forall>n < nat d. \<exists>sc'. machine_ticks fails n sc1 = Inr sc' \<and>
              Timing_tick sc' = Timing_tick sc + int n \<and>
              count_list (calls sc') cb = count_list (calls sc) cb"
    by blast
  with q(5) last show ?thesis by blast
qed

lemma delayed_fire_in_kept_bucket_example:
  "(\<forall>n < nat 5. \<exists>sc'. machine_ticks no_failure n sc_held = Inr sc' \<and>
        Timing_tick sc' = int n \<and> count_list (calls sc') ''hold_S'' = 0) \<and>
   (\<exists>sc'. machine_ticks no_failure (nat 5) sc_held = Inr sc' \<and>
        Timing_tick sc' = 5 \<and> count_list (calls sc') ''hold_S'' = 1)"
proof -
  have nofail: "\<forall>c. \<not> no_failure c" by (simp add: no_failure_def)
  have wf: "distinct (map fst (active_timed_switches sc_registered))"
    by (simp add: demo_defs)
  have ret: "process_switch no_failure sc_registered (Some ''S'') 1 False None None = Inr sc_held"
    by (simp add: press_S sc_held_def)
  have name: "resolve_name sc_registered (Some ''S'') None None = Some ''S''"
    by (simp add: resolve_name_def)
  have new: "switches sc_held ''S'' = Some \<lparr>entry_state = 1, entry_time = 0\<rparr>"
    by (simp add: sc_held_def)
  have reg: "registered_switches sc_registered
               (action_key ''S'' (entry_state \<lparr>entry_state = 1, entry_time = 0\<rparr>)) =
             Some ([] @ \<lparr>handler_ticks = 5, handler_callback = ''hold_S''\<rparr> # [])"
    by (simp add: demo_defs)
  have fresh: "\<forall>kv\<in>set (active_timed_switches sc_registered).
                 ''hold_S'' \<notin> pending_callback ` set (snd kv)"
    by (simp add: demo_defs)
  have clean: "\<forall>v item. (Timing_tick sc_registered + 5, v) \<in> set (active_timed_switches sc_registered)
                   \<and> item \<in> set v
                  \<longrightarrow> switch_action item \<noteq>
                      action_key ''S'' (entry_state \<lparr>entry_state = 1, entry_time = 0\<rparr> XOR 1)"
    by (simp add: demo_defs)
  have calls0: "calls sc_registered = []" "Timing_tick sc_registered = 0"
    by (simp_all add: demo_defs)
  have cb: "handler_callback \<lparr>handler_ticks = 5, handler_callback = ''hold_S''\<rparr> = ''hold_S''"
    and d: "handler_ticks \<lparr>handler_ticks = 5, handler_callback = ''hold_S''\<rparr> = 5" "(0 :: int) < 5"
    and unique: "''hold_S'' \<notin> handler_callback ` set ([] @ [])"
    by simp_all
  from delayed_fire_in_kept_bucket [OF nofail wf ret name new reg cb d unique fresh clean] calls0
  show ?thesis by simp
qed

lemmas c1_defs = sc_two_dwells_def sc_released_def sc_pressed_def

text \<open>
  C1. The docstring of \<open>add_switch_handler\<close> promises the handler once the
  switch has been in the state for the given time, and the sweep is commented
  "check if the opposite state is in the active timed switches list, if so,
  remove it"; but the sweep deletes whole buckets. Handlers \<open>slow\<close> on (S, 0)
  with 10 ticks and \<open>fast\<close> on (S, 1) with 5 ticks: S goes inactive at tick 0
  (\<open>slow\<close> queued at key 10) and active at tick 5. The fire of \<open>fast\<close> is
  queued at key 10 too, and the sweep of the same call, meeting the pending
  \<open>slow\<close> there, deletes that bucket. S stays active with no further report,
  and through tick 10 no callback is invoked.
\<close>

theorem delayed_fire_lost_in_shared_bucket:
  "process_switch no_failure sc_two_dwells (Some ''S'') 0 False None None = Inr sc_released \<and>
   machine_ticks no_failure 5 sc_released = Inr (sc_released\<lparr>Timing_tick := 5\<rparr>) \<and>
   process_switch no_failure (sc_released\<lparr>Timing_tick := 5\<rparr>) (Some ''S'') 1 False None None
     = Inr sc_pressed \<and>
   is_state sc_pressed ''S'' 1 0 = Inr True \<and>
   machine_ticks no_failure 5 sc_pressed = Inr (sc_pressed\<lparr>Timing_tick := 10\<rparr>) \<and>
   calls (sc_pressed\<lparr>Timing_tick := 10\<rparr>) = []"
  by (simp add: c1_defs demo_defs call_defs machine_tick_def SwitchController_tick_def
        is_state_def ticks_since_change_def eval_nat_numeral)

text \<open>
  A second matching fire in one bucket makes the sweep raise: the \<open>del\<close> is
  executed again for a key that is already gone.
\<close>

lemma sweep_second_match_raises:
  "sweep ''S-1'' [(5, [hold_S, hold_S])] [(5, [hold_S, hold_S])] = Inl (KeyError, [])"
  by (simp add: hold_S_def dict_keys_def dict_del_def)

end
